theory Spec2Isabelle
  imports Main "HOL-Library.Sublist" "HOL-Library.Multiset" "HOL-Library.Char_ord" "HOL-Library.List_Lexorder"
begin

section \<open>JavaScript strings\<close>

text \<open>
  A JavaScript string is a sequence of code units; it is modelled by \<open>string\<close>, one
  \<open>char\<close> per code unit (object keys of the feeds are ASCII). The string methods the
  sources call are written out below with the results the language defines, the
  corner cases included (\<open>lastIndexOf\<close> is \<open>-1\<close> when the character is absent,
  \<open>substring\<close> clamps its bounds, \<open>split\<close> of the empty string is one empty part).
\<close>

definition startsWith :: "string \<Rightarrow> string \<Rightarrow> bool" where
  "startsWith s p = (take (length p) s = p)"

definition endsWith :: "string \<Rightarrow> string \<Rightarrow> bool" where
  "endsWith s p = (length p \<le> length s \<and> drop (length s - length p) s = p)"


definition lastIndexOf :: "string \<Rightarrow> char \<Rightarrow> int" where
  "lastIndexOf s c =
     (if c \<in> set s then int (length s - 1 - length (takeWhile (\<lambda>d. d \<noteq> c) (rev s))) else - 1)"

text \<open>\<open>s.substring(0, n)\<close> and \<open>s.substring(n)\<close>; a negative bound counts as 0.\<close>

definition substringTo :: "string \<Rightarrow> int \<Rightarrow> string" where
  "substringTo s n = take (nat n) s"

definition substringFrom :: "string \<Rightarrow> int \<Rightarrow> string" where
  "substringFrom s n = drop (nat n) s"

text \<open>\<open>toLowerCase\<close>, on the letters of ASCII.\<close>

definition lowerChar :: "char \<Rightarrow> char" where
  "lowerChar c =
     (case map_of (zip ''ABCDEFGHIJKLMNOPQRSTUVWXYZ'' ''abcdefghijklmnopqrstuvwxyz'') c of
        Some d \<Rightarrow> d
      | None \<Rightarrow> c)"

definition toLowerCase :: "string \<Rightarrow> string" where
  "toLowerCase s = map lowerChar s"

text \<open>\<open>s.split(sep)\<close> for a one-character separator: never an empty array.\<close>

fun splitOn :: "string \<Rightarrow> char \<Rightarrow> string list" where
  "splitOn [] sep = [[]]"
| "splitOn (c # cs) sep =
     (if c = sep then [] # splitOn cs sep
      else (case splitOn cs sep of p # ps \<Rightarrow> (c # p) # ps | [] \<Rightarrow> [[c]]))"

text \<open>
  \<open>s.replace(/pat/g, rep)\<close> for a pattern that is a literal, non-empty text: the
  occurrences are found from left to right and do not overlap.
\<close>

fun replaceAll :: "string \<Rightarrow> string \<Rightarrow> string \<Rightarrow> string" where
  "replaceAll pat rep [] = []"
| "replaceAll pat rep (c # cs) =
     (if pat \<noteq> [] \<and> startsWith (c # cs) pat
      then rep @ replaceAll pat rep (drop (length pat - 1) cs)
      else c # replaceAll pat rep cs)"

text \<open>
  The line terminators that \<open>.\<close> of a regular expression does not match (of the four of
  the language, the two that are single code units below 256).
\<close>

definition lineTerminator :: "char \<Rightarrow> bool" where
  "lineTerminator c = (c = CHR 0x0A \<or> c = CHR 0x0D)"

text \<open>
  \<open>s.replace(/%2B.*/, "")\<close>: the first \<open>%2B\<close> and the rest of its line are removed; the
  pattern is not global, so what follows a line terminator is kept as it is.
\<close>

fun removePlusSuffix :: "string \<Rightarrow> string" where
  "removePlusSuffix [] = []"
| "removePlusSuffix (c # cs) =
     (if startsWith (c # cs) ''%2B''
      then dropWhile (\<lambda>d. \<not> lineTerminator d) (drop 2 cs)
      else c # removePlusSuffix cs)"

text \<open>\<open>lines.join("\n")\<close>.\<close>

fun joinLines :: "string list \<Rightarrow> string" where
  "joinLines [] = []"
| "joinLines [l] = l"
| "joinLines (l # m # ls) = l @ [CHR 0x0A] @ joinLines (m # ls)"

text \<open>
  \<open>Array.prototype.sort(cmp)\<close> is a stable sort: for a comparator that is consistent
  (a total preorder) its result is the one that stable insertion gives.
\<close>

fun insertBy :: "('a \<Rightarrow> 'a \<Rightarrow> int) \<Rightarrow> 'a \<Rightarrow> 'a list \<Rightarrow> 'a list" where
  "insertBy cmp x [] = [x]"
| "insertBy cmp x (y # ys) = (if cmp x y \<le> 0 then x # y # ys else y # insertBy cmp x ys)"

definition sortBy :: "('a \<Rightarrow> 'a \<Rightarrow> int) \<Rightarrow> 'a list \<Rightarrow> 'a list" where
  "sortBy cmp xs = foldr (insertBy cmp) xs []"

text \<open>The comparison of two strings by their code units, as a comparator.\<close>

definition codeUnitCompare :: "string \<Rightarrow> string \<Rightarrow> int" where
  "codeUnitCompare a b = (if a < b then - 1 else if b < a then 1 else 0)"

section \<open>services/index-generator.ts\<close>

record S3Object =
  key :: string
  origKey :: string
  checksum :: "string option"
  size' :: "nat option"
  pep658 :: "string option"

record S3Index =
  objects :: "S3Object list"
  prefix' :: string

text \<open>The constructor: \<open>prefix.replace(/\/$/, "")\<close> removes one trailing slash.\<close>

definition newS3Index :: "S3Object list \<Rightarrow> string \<Rightarrow> S3Index" where
  "newS3Index objs p =
     \<lparr>objects = objs, prefix' = (if endsWith p ''/'' then butlast p else p)\<rparr>"

definition dirname :: "string \<Rightarrow> string" where
  "dirname path =
     (let lastSlash = lastIndexOf path CHR ''/''
      in if lastSlash \<ge> 0 then substringTo path lastSlash else [])"

definition basename :: "string \<Rightarrow> string" where
  "basename path =
     (let lastSlash = lastIndexOf path CHR ''/''
      in if lastSlash \<ge> 0 then substringFrom path (lastSlash + 1) else path)"

definition isObjAtRoot :: "S3Index \<Rightarrow> S3Object \<Rightarrow> bool" where
  "isObjAtRoot idx obj = (dirname (key obj) = prefix' idx)"


definition normalizePackageVersion :: "S3Object \<Rightarrow> string" where
  "normalizePackageVersion obj =
     (let b = basename (key obj); parts = splitOn b CHR ''-''
      in case parts of
           p0 # p1 # _ \<Rightarrow> removePlusSuffix (p0 @ ''-'' @ p1)
         | _ \<Rightarrow> b)"

text \<open>
  A \<open>Set<string>\<close> that is later turned into an array is a list without repetitions in
  the order of insertion.
\<close>

definition setAdd :: "string list \<Rightarrow> string \<Rightarrow> string list" where
  "setAdd s x = (if x \<in> set s then s else s @ [x])"

text \<open>\<open>a.split("-")[1] || "0.0.0"\<close>: a missing or empty second part gives the default.\<close>

definition versionOf :: "string \<Rightarrow> string" where
  "versionOf a =
     (case splitOn a CHR ''-'' of
        _ # v # _ \<Rightarrow> (if v = [] then ''0.0.0'' else v)
      | _ \<Rightarrow> ''0.0.0'')"

text \<open>
  The comparator of the sort. \<open>semver.rcompare\<close> belongs to a library and
  \<open>localeCompare\<close> to the platform: both are parameters, \<open>rcompare\<close> with \<open>None\<close> where
  the library throws (a version it cannot parse).
\<close>

definition versionComparator ::
  "(string \<Rightarrow> string \<Rightarrow> int option) \<Rightarrow> (string \<Rightarrow> string \<Rightarrow> int) \<Rightarrow> string \<Rightarrow> string \<Rightarrow> int" where
  "versionComparator rcompare localeCompare a b =
     (let versionA = versionOf a; versionB = versionOf b
      in case rcompare versionA versionB of
           Some r \<Rightarrow> r
         | None \<Rightarrow> localeCompare versionB versionA)"

text \<open>
  One round of the loop over \<open>sortedPackages\<close>; the state is \<open>packageCounts\<close> and
  \<open>toHide\<close>.
\<close>

definition hideStep ::
  "string set \<Rightarrow> nat \<Rightarrow> (string \<rightharpoonup> nat) \<times> string set \<Rightarrow> string \<Rightarrow> (string \<rightharpoonup> nat) \<times> string set" where
  "hideStep packageAllowList keepThreshold st normalized =
     (let packageCounts = fst st; toHide = snd st;
          packageName = hd (splitOn (basename normalized) CHR ''-'')
      in if toLowerCase packageName \<notin> packageAllowList
         then (packageCounts, insert normalized toHide)
         else (let count = (case packageCounts packageName of None \<Rightarrow> 0 | Some c \<Rightarrow> c)
               in if count \<ge> keepThreshold
                  then (packageCounts, insert normalized toHide)
                  else (packageCounts(packageName \<mapsto> count + 1), toHide)))"

text \<open>
  \<open>nightlyPackagesToShow\<close>. The comparator above need not be consistent (it mixes two
  orders), and the language leaves the order of such a sort to the implementation: the
  sort is the parameter \<open>jsSort\<close>, of which the theorems assume only that it permutes
  its input.
\<close>

definition nightlyPackagesToShow ::
  "((string \<Rightarrow> string \<Rightarrow> int) \<Rightarrow> string list \<Rightarrow> string list) \<Rightarrow>
   (string \<Rightarrow> string \<Rightarrow> int option) \<Rightarrow> (string \<Rightarrow> string \<Rightarrow> int) \<Rightarrow>
   S3Index \<Rightarrow> string set \<Rightarrow> nat \<Rightarrow> S3Object list" where
  "nightlyPackagesToShow jsSort rcompare localeCompare idx packageAllowList keepThreshold =
     (let normalizedVersions = foldl setAdd [] (map normalizePackageVersion (objects idx));
          sortedPackages = jsSort (versionComparator rcompare localeCompare) normalizedVersions;
          toHide = snd (foldl (hideStep packageAllowList keepThreshold) (Map.empty, {}) sortedPackages)
      in filter (\<lambda>obj. normalizePackageVersion obj \<notin> toHide) (objects idx))"

definition sortPermutes :: "((string \<Rightarrow> string \<Rightarrow> int) \<Rightarrow> string list \<Rightarrow> string list) \<Rightarrow> bool" where
  "sortPermutes jsSort = (\<forall>cmp xs. mset (jsSort cmp xs) = mset xs)"

text \<open>The package name of a RetentionKey, as the loop reads it.\<close>

definition retentionPackage :: "string \<Rightarrow> string" where
  "retentionPackage normalized = hd (splitOn (basename normalized) CHR ''-'')"

definition countOf :: "(string \<rightharpoonup> nat) \<Rightarrow> string \<Rightarrow> nat" where
  "countOf packageCounts packageName =
     (case packageCounts packageName of None \<Rightarrow> 0 | Some c \<Rightarrow> c)"

text \<open>The set \<open>toHide\<close> at the end of the loop.\<close>

definition hiddenKeys ::
  "((string \<Rightarrow> string \<Rightarrow> int) \<Rightarrow> string list \<Rightarrow> string list) \<Rightarrow>
   (string \<Rightarrow> string \<Rightarrow> int option) \<Rightarrow> (string \<Rightarrow> string \<Rightarrow> int) \<Rightarrow>
   S3Object list \<Rightarrow> string set \<Rightarrow> nat \<Rightarrow> string set" where
  "hiddenKeys jsSort rcompare localeCompare objs packageAllowList keepThreshold =
     snd (foldl (hideStep packageAllowList keepThreshold) (Map.empty, {})
       (jsSort (versionComparator rcompare localeCompare)
         (foldl setAdd [] (map normalizePackageVersion objs))))"

section \<open>services/s3-client.ts\<close>

definition hasAcceptedExtension :: "string \<Rightarrow> string list \<Rightarrow> bool" where
  "hasAcceptedExtension k extensions = list_ex (\<lambda>ext. endsWith k (''.'' @ ext)) extensions"

text \<open>
  A pattern of \<open>RegExp[]\<close> is represented by its \<open>test\<close>, a predicate on strings (the
  configured patterns have no flags, so \<open>test\<close> keeps no state).
\<close>

definition matchesSubdirPattern :: "string \<Rightarrow> string \<Rightarrow> (string \<Rightarrow> bool) list \<Rightarrow> bool" where
  "matchesSubdirPattern dir pfx patterns =
     (if dir = pfx then True
      else (let relativePath = substringFrom dir (int (length pfx) + 1)
            in if CHR ''/'' \<in> set relativePath then False
               else list_ex (\<lambda>pattern. pattern relativePath) patterns))"

definition sanitizeKey :: "string \<Rightarrow> string" where
  "sanitizeKey k = replaceAll ''+'' ''%2B'' k"

text \<open>
  A response of \<open>ListObjectsV2\<close>: the keys of its \<open>Contents\<close> (a key may be undefined)
  and the continuation token.
\<close>

record ListObjectsV2Output =
  Contents :: "string option list option"
  NextContinuationToken :: "string option"

text \<open>What one round of the inner loop yields for an object of the page, if anything.\<close>

definition yieldedKey :: "string \<Rightarrow> string list \<Rightarrow> (string \<Rightarrow> bool) list \<Rightarrow> string option \<Rightarrow> string list" where
  "yieldedKey normalizedPrefix acceptedExtensions acceptedSubdirPatterns objKey =
     (case objKey of
        None \<Rightarrow> []
      | Some k \<Rightarrow>
          if k = [] then []
          else if \<not> hasAcceptedExtension k acceptedExtensions then []
          else (let lastSlashIndex = lastIndexOf k CHR ''/'';
                    dir = (if lastSlashIndex \<ge> 0 then substringTo k lastSlashIndex else [])
                in if \<not> matchesSubdirPattern dir normalizedPrefix acceptedSubdirPatterns then []
                   else [sanitizeKey k]))"

text \<open>
  The loop over the pages. The client is given by the responses it returns, in order;
  the loop asks for the next one as long as the token of the last is a non-empty string.
\<close>

fun listPages :: "ListObjectsV2Output list \<Rightarrow> string \<Rightarrow> string list \<Rightarrow> (string \<Rightarrow> bool) list \<Rightarrow> string list" where
  "listPages [] normalizedPrefix exts pats = []"
| "listPages (response # rest) normalizedPrefix exts pats =
     (case Contents response of
        None \<Rightarrow> []
      | Some objs \<Rightarrow> concat (map (yieldedKey normalizedPrefix exts pats) objs))
     @ (case NextContinuationToken response of
          None \<Rightarrow> []
        | Some token \<Rightarrow> if token = [] then [] else listPages rest normalizedPrefix exts pats)"

definition listObjectsWithPrefix ::
  "ListObjectsV2Output list \<Rightarrow> string \<Rightarrow> string list \<Rightarrow> (string \<Rightarrow> bool) list \<Rightarrow> string list" where
  "listObjectsWithPrefix client pfx acceptedExtensions acceptedSubdirPatterns =
     (let normalizedPrefix = (if endsWith pfx ''/'' then butlast pfx else pfx)
      in listPages client normalizedPrefix acceptedExtensions acceptedSubdirPatterns)"

definition isDigit :: "char \<Rightarrow> bool" where
  "isDigit c = (c \<in> set ''0123456789'')"

definition isBase64Class :: "char \<Rightarrow> bool" where
  "isBase64Class c =
     (c \<in> set ''ABCDEFGHIJKLMNOPQRSTUVWXYZabcdefghijklmnopqrstuvwxyz0123456789+/='')"

text \<open>
  \<open>MULTIPART_UPLOAD_REGEX.test\<close> for \<open>/^[A-Za-z0-9+/=]+=-[0-9]+$/\<close>. The class holds \<open>=\<close>
  and not \<open>-\<close>, so a match is a longest run of the class, of two characters or more and
  ending in \<open>=\<close>, then \<open>-\<close>, then digits to the end.
\<close>

definition MULTIPART_UPLOAD_REGEX :: "string \<Rightarrow> bool" where
  "MULTIPART_UPLOAD_REGEX s =
     (let run = takeWhile isBase64Class s; rest = dropWhile isBase64Class s
      in length run \<ge> 2 \<and> last run = CHR ''=''
         \<and> (case rest of
               [] \<Rightarrow> False
             | c # digits \<Rightarrow> c = CHR ''-'' \<and> digits \<noteq> [] \<and> list_all isDigit digits))"

record HeadObjectCommandOutput =
  ChecksumSHA256 :: "string option"
  ContentLength :: "nat option"
  Metadata :: "(string \<rightharpoonup> string) option"

definition truthy :: "string option \<Rightarrow> bool" where
  "truthy v = (case v of None \<Rightarrow> False | Some s \<Rightarrow> s \<noteq> [])"

text \<open>
  \<open>parseChecksum\<close>. \<open>Buffer.from(s, "base64").toString("hex")\<close> belongs to the platform
  and is the parameter \<open>decode\<close>, with \<open>None\<close> where it throws (the \<open>catch\<close> then returns
  undefined as well).
\<close>

definition parseChecksum :: "(string \<Rightarrow> string option) \<Rightarrow> HeadObjectCommandOutput \<Rightarrow> string option" where
  "parseChecksum decode response =
     (if truthy (ChecksumSHA256 response)
      then (case ChecksumSHA256 response of
              None \<Rightarrow> None
            | Some c \<Rightarrow> if MULTIPART_UPLOAD_REGEX c then None else decode c)
      else (case Metadata response of
              None \<Rightarrow> None
            | Some md \<Rightarrow>
                if truthy (md ''checksum-sha256'') then md ''checksum-sha256''
                else md ''x-amz-meta-checksum-sha256''))"

text \<open>
  The decoding of the platform (Node's \<open>Buffer\<close>), for the examples: the characters of
  the base64 alphabet (and of its URL-safe variant) give six bits each, other characters
  are skipped, the first \<open>=\<close> ends the text, and every full byte is printed as two
  lowercase hex digits.
\<close>

definition unbase64 :: "char \<Rightarrow> nat option" where
  "unbase64 c =
     (if c = CHR ''-'' then Some 62 else if c = CHR ''_'' then Some 63
      else map_of (zip ''ABCDEFGHIJKLMNOPQRSTUVWXYZabcdefghijklmnopqrstuvwxyz0123456789+/'' [0 ..< 64]) c)"

fun sextets :: "string \<Rightarrow> nat list" where
  "sextets [] = []"
| "sextets (c # cs) =
     (if c = CHR ''='' then []
      else (case unbase64 c of Some v \<Rightarrow> v # sextets cs | None \<Rightarrow> sextets cs))"

fun decodeGroups :: "nat list \<Rightarrow> nat list" where
  "decodeGroups (a # b # c # d # rest) =
     [a * 4 + b div 16, (b mod 16) * 16 + c div 4, (c mod 4) * 64 + d] @ decodeGroups rest"
| "decodeGroups [a, b, c] = [a * 4 + b div 16, (b mod 16) * 16 + c div 4]"
| "decodeGroups [a, b] = [a * 4 + b div 16]"
| "decodeGroups _ = []"

definition hexByte :: "nat \<Rightarrow> string" where
  "hexByte n = [''0123456789abcdef'' ! (n div 16 mod 16), ''0123456789abcdef'' ! (n mod 16)]"

definition base64ToHex :: "string \<Rightarrow> string option" where
  "base64ToHex s = Some (concat (map hexByte (decodeGroups (sextets s))))"

text \<open>
  The shape of a composite digest as the specification words it, a base64 payload
  followed by \<open>-<partCount>\<close>: characters of the base64 alphabet, at most two \<open>=\<close> of
  padding, \<open>-\<close> and digits.
\<close>

definition compositeDigestShape :: "string \<Rightarrow> bool" where
  "compositeDigestShape s =
     (let isAlphabet = (\<lambda>c. isBase64Class c \<and> c \<noteq> CHR ''='');
          payload = takeWhile isAlphabet s; r1 = dropWhile isAlphabet s;
          padding = takeWhile (\<lambda>c. c = CHR ''='') r1; r2 = dropWhile (\<lambda>c. c = CHR ''='') r1
      in payload \<noteq> [] \<and> length padding \<le> 2
         \<and> (case r2 of
               [] \<Rightarrow> False
             | c # digits \<Rightarrow> c = CHR ''-'' \<and> digits \<noteq> [] \<and> list_all isDigit digits))"

text \<open>The patterns of \<open>acceptedSubdirPatterns\<close> in config.ts, and the extensions.\<close>

definition cudaPattern :: "string \<Rightarrow> bool" where
  "cudaPattern s = (startsWith s ''cu'' \<and> drop 2 s \<noteq> [] \<and> list_all isDigit (drop 2 s))"

definition rocmPattern :: "string \<Rightarrow> bool" where
  "rocmPattern s =
     (startsWith s ''rocm''
      \<and> (let major = takeWhile isDigit (drop 4 s); rest = dropWhile isDigit (drop 4 s)
         in major \<noteq> []
            \<and> (case rest of
                  [] \<Rightarrow> False
                | c # minor \<Rightarrow> c = CHR ''.'' \<and> minor \<noteq> [] \<and> list_all isDigit minor)))"

definition acceptedSubdirPatterns :: "(string \<Rightarrow> bool) list" where
  "acceptedSubdirPatterns = [cudaPattern, rocmPattern, (\<lambda>s. s = ''cpu''), (\<lambda>s. s = ''xpu'')]"

definition acceptedFileExtensions :: "string list" where
  "acceptedFileExtensions = [''whl'', ''zip'', ''tar.gz'', ''json'']"

text \<open>
  The catalog filter as the specification words it: the key has an accepted extension,
  and its parent directory is the feed prefix or a direct child of the prefix whose
  last segment matches one of the patterns.
\<close>

definition acceptedBySpec :: "string \<Rightarrow> string list \<Rightarrow> (string \<Rightarrow> bool) list \<Rightarrow> string \<Rightarrow> bool" where
  "acceptedBySpec pfx extensions patterns k =
     (hasAcceptedExtension k extensions
      \<and> (dirname k = pfx
         \<or> (startsWith (dirname k) (pfx @ ''/'')
            \<and> CHR ''/'' \<notin> set (drop (length pfx + 1) (dirname k))
            \<and> list_ex (\<lambda>pattern. pattern (drop (length pfx + 1) (dirname k))) patterns)))"

section \<open>index.ts\<close>

text \<open>The array of \<open>S3Object\<close> that \<open>processPrefix\<close> builds from the listed keys.\<close>

definition createS3Objects :: "string list \<Rightarrow> S3Object list" where
  "createS3Objects objectKeys =
     map (\<lambda>k. \<lparr>key = k, origKey = replaceAll ''%2B'' ''+'' k,
               checksum = None, size' = None, pep658 = None\<rparr>) objectKeys"

section \<open>The generators\<close>

text \<open>The decimal digits of a number, as a template literal prints it.\<close>

function decimal :: "nat \<Rightarrow> string" where
  "decimal n =
     (if n < 10 then [''0123456789'' ! n] else decimal (n div 10) @ [''0123456789'' ! (n mod 10)])"
  by pat_completeness auto
termination
  by (relation "measure id") auto

declare decimal.simps [simp del]

text \<open>
  The last line of the two simple pages; \<open>now\<close> is \<open>Date.now()\<close>, the milliseconds since the
  epoch.
\<close>

definition timestampComment :: "nat \<Rightarrow> string" where
  "timestampComment now = ''<!--TIMESTAMP '' @ decimal (now div 1000) @ ''-->''"

text \<open>
  \<open>generateSimplePackagesHtml\<close>: the array \<open>lines\<close> when the function returns, and its
  join. The names come as a \<open>Set<string>\<close>, here the list of its elements in the order of
  insertion; \<open>sort()\<close> without a comparator orders strings by their code units.
\<close>

definition simplePackagesLines :: "nat \<Rightarrow> string list \<Rightarrow> string list" where
  \<open>simplePackagesLines now packageNames =
     [''<!DOCTYPE html>'', ''<html>'', ''  <body>'']
     @ map (\<lambda>pkgName. let displayName = replaceAll ''_'' ''-'' pkgName
                     in ''    <a href="'' @ displayName @ ''/">'' @ displayName @ ''</a><br/>'')
         (sort packageNames)
     @ [''  </body>'', ''</html>'', timestampComment now]\<close>

definition generateSimplePackagesHtml :: "nat \<Rightarrow> string list \<Rightarrow> string" where
  "generateSimplePackagesHtml now packageNames = joinLines (simplePackagesLines now packageNames)"

text \<open>The line of one object on the page of a package.\<close>

definition packageLink :: "bool \<Rightarrow> S3Object \<Rightarrow> string" where
  \<open>packageLink isNightly obj =
     (let lastSlash = lastIndexOf (key obj) CHR ''/'';
          filename = (if lastSlash \<ge> 0 then substringFrom (key obj) (lastSlash + 1) else key obj);
          displayName = replaceAll ''%2B'' ''+'' filename;
          maybeFragment =
            (case checksum obj of
               None \<Rightarrow> []
             | Some c \<Rightarrow> if c \<noteq> [] \<and> \<not> isNightly then ''#sha256='' @ c else []);
          attributes =
            (case pep658 obj of
               None \<Rightarrow> []
             | Some h \<Rightarrow>
                 if h \<noteq> []
                 then '' data-dist-info-metadata="sha256='' @ h @ ''" data-core-metadata="sha256='' @ h @ ''"''
                 else [])
            @ (if endsWith (key obj) ''networkx-3.3-py3-none-any.whl''
                  \<or> endsWith (key obj) ''networkx-3.4.2-py3-none-any.whl''
               then '' data-requires-python="&gt;=3.10"'' else [])
      in ''    <a href="/'' @ key obj @ maybeFragment @ ''"'' @ attributes @ ''>'' @ displayName
         @ ''</a><br/>'')\<close>

text \<open>
  \<open>generateSimplePackageHtml\<close>: the array \<open>lines\<close> when the function returns, and its
  join. The objects are sorted with the comparator \<open>a.key.localeCompare(b.key)\<close>; the
  collation \<open>localeCompare\<close> is the platform's and a parameter.
\<close>

definition simplePackageLines ::
  "(string \<Rightarrow> string \<Rightarrow> int) \<Rightarrow> nat \<Rightarrow> S3Object list \<Rightarrow> string \<Rightarrow> bool \<Rightarrow> string list" where
  "simplePackageLines localeCompare now objs packageName isNightly =
     [''<!DOCTYPE html>'', ''<html>'', ''  <body>'',
      ''    <h1>Links for '' @ replaceAll ''_'' ''-'' (toLowerCase packageName) @ ''</h1>'']
     @ map (packageLink isNightly) (sortBy (\<lambda>a b. localeCompare (key a) (key b)) objs)
     @ [''  </body>'', ''</html>'', timestampComment now]"

definition generateSimplePackageHtml ::
  "(string \<Rightarrow> string \<Rightarrow> int) \<Rightarrow> nat \<Rightarrow> S3Object list \<Rightarrow> string \<Rightarrow> bool \<Rightarrow> string" where
  "generateSimplePackageHtml localeCompare now objs packageName isNightly =
     joinLines (simplePackageLines localeCompare now objs packageName isNightly)"

text \<open>
  A comparator is consistent when the order it gives is total and transitive, as the
  language requires of one and as \<open>localeCompare\<close> is.
\<close>

definition consistentComparator :: "(string \<Rightarrow> string \<Rightarrow> int) \<Rightarrow> bool" where
  "consistentComparator cmp =
     (\<forall>a b c. (cmp a b \<le> 0 \<or> cmp b a \<le> 0) \<and> (cmp a b \<le> 0 \<and> cmp b c \<le> 0 \<longrightarrow> cmp a c \<le> 0))"

text \<open>
  \<open>localeCompare\<close> is the collation of the platform, and the generators take it as a
  parameter. For the examples, the order it gives to keys made of ASCII letters, digits,
  \<open>-\<close>, \<open>.\<close> and \<open>/\<close>: the keys are compared without regard to the case of their
  letters first, and of two keys that differ in the case of letters only, the one that
  has the lower-case letter at the first difference comes first.
\<close>

definition collationCompare :: "string \<Rightarrow> string \<Rightarrow> int" where
  "collationCompare a b =
     (let la = toLowerCase a; lb = toLowerCase b
      in if la < lb then - 1 else if lb < la then 1 else codeUnitCompare b a)"

text \<open>The entry of one object in \<open>generateLibtorchHtml\<close>: nothing when it is skipped.\<close>

definition libtorchEntry :: "string \<Rightarrow> string \<Rightarrow> S3Object \<Rightarrow> string list" where
  \<open>libtorchEntry subdir pfx obj =
     (let isRoot = (subdir = pfx);
          objDir = substringTo (key obj) (lastIndexOf (key obj) CHR ''/'')
      in if \<not> isRoot \<and> objDir = pfx then []
         else (let s1 = (if startsWith (key obj) subdir
                         then substringFrom (key obj) (int (length subdir)) else key obj);
                   sanitized = (if startsWith s1 ''/'' then substringFrom s1 1 else s1)
               in [''<a href="/'' @ key obj @ ''">'' @ sanitized @ ''</a><br/>'']))\<close>

definition generateLibtorchHtml :: "S3Object list \<Rightarrow> string \<Rightarrow> string \<Rightarrow> string" where
  "generateLibtorchHtml objs subdir pfx = joinLines (sort (concat (map (libtorchEntry subdir pfx) objs)))"

section \<open>An example feed\<close>

text \<open>
  A nightly feed with three versions of an allowed package, one of them in two builds,
  and one package that is not allowed.
\<close>

definition nightlyExample :: S3Index where
  "nightlyExample =
     newS3Index
       (createS3Objects
          [''whl/nightly/foo-1.0-py3-none-any.whl'',
           ''whl/nightly/bar-1.0-py3-none-any.whl'',
           ''whl/nightly/foo-3.0-cp310-linux.whl'',
           ''whl/nightly/foo-2.0-py3-none-any.whl'',
           ''whl/nightly/foo-3.0-cp311-linux.whl''])
       ''whl/nightly/''"

text \<open>A wheel of the nightly feed with a checksum.\<close>

definition nightlyTorchWheel :: S3Object where
  "nightlyTorchWheel =
     \<lparr>key = ''whl/nightly/torch-2.0.0.dev20231120-py3-none-any.whl'',
      origKey = ''whl/nightly/torch-2.0.0.dev20231120-py3-none-any.whl'',
      checksum = Some ''abc123def456'', size' = Some 1000, pep658 = None\<rparr>"

section \<open>Properties\<close>


lemma setAdd_fold_set: "set (foldl setAdd acc xs) = set acc \<union> set xs"
  by (induction xs arbitrary: acc) (auto simp: setAdd_def)

lemma setAdd_fold_distinct: "distinct acc \<Longrightarrow> distinct (foldl setAdd acc xs)"
  by (induction xs arbitrary: acc) (auto simp: setAdd_def)

lemma hideStep_cases:
  "hideStep a n (m, h) k =
     (if toLowerCase (retentionPackage k) \<notin> a \<or> n \<le> countOf m (retentionPackage k)
      then (m, insert k h)
      else (m(retentionPackage k \<mapsto> countOf m (retentionPackage k) + 1), h))"
  by (simp add: hideStep_def retentionPackage_def countOf_def Let_def)

lemma hide_mono: "h \<subseteq> snd (foldl (hideStep a n) (m, h) ks)"
proof (induction ks arbitrary: m h)
  case Nil
  then show ?case by simp
next
  case (Cons x ks)
  obtain m' h' where st: "hideStep a n (m, h) x = (m', h')"
    by (cases "hideStep a n (m, h) x")
  then have "h \<subseteq> h'"
    by (auto simp: hideStep_cases split: if_splits)
  also have "h' \<subseteq> snd (foldl (hideStep a n) (m', h') ks)"
    by (rule Cons.IH)
  finally show ?case using st by simp
qed

lemma hide_bound: "snd (foldl (hideStep a n) (m, h) ks) \<subseteq> h \<union> set ks"
  by (induction ks arbitrary: m h) (auto simp: hideStep_cases split: if_splits)

lemma hide_not_allowed:
  "k \<in> set ks \<Longrightarrow> toLowerCase (retentionPackage k) \<notin> a \<Longrightarrow> k \<in> snd (foldl (hideStep a n) (m, h) ks)"
proof (induction ks arbitrary: m h)
  case Nil
  then show ?case by simp
next
  case (Cons x ks)
  show ?case
  proof (cases "k = x")
    case True
    with Cons.prems have "hideStep a n (m, h) x = (m, insert k h)"
      by (simp add: hideStep_cases)
    moreover have "insert k h \<subseteq> snd (foldl (hideStep a n) (m, insert k h) ks)"
      by (rule hide_mono)
    ultimately show ?thesis by auto
  next
    case False
    with Cons.prems have "k \<in> set ks" by simp
    from Cons.IH[OF this Cons.prems(2)] show ?thesis
      by (cases "hideStep a n (m, h) x") simp
  qed
qed

lemma count_bound:
  "distinct ks \<Longrightarrow> set ks \<inter> h = {} \<Longrightarrow>
   countOf m p + card {k \<in> set ks. retentionPackage k = p \<and> k \<notin> snd (foldl (hideStep a n) (m, h) ks)}
     \<le> max n (countOf m p)"
proof (induction ks arbitrary: m h)
  case Nil
  then show ?case by simp
next
  case (Cons x ks)
  let ?q = "retentionPackage x"
  show ?case
  proof (cases "toLowerCase ?q \<notin> a \<or> n \<le> countOf m ?q")
    case True
    then have step: "hideStep a n (m, h) x = (m, insert x h)"
      by (simp add: hideStep_cases)
    have xin: "x \<in> snd (foldl (hideStep a n) (m, insert x h) ks)"
      using hide_mono[of "insert x h" a n m ks] by auto
    have disj: "set ks \<inter> insert x h = {}"
      using Cons.prems by auto
    have "{k \<in> set (x # ks). retentionPackage k = p \<and> k \<notin> snd (foldl (hideStep a n) (m, h) (x # ks))}
        = {k \<in> set ks. retentionPackage k = p \<and> k \<notin> snd (foldl (hideStep a n) (m, insert x h) ks)}"
      using xin step by auto
    moreover have "distinct ks" using Cons.prems by simp
    ultimately show ?thesis
      using Cons.IH[OF _ disj, of m] by simp
  next
    case False
    define m' where "m' = m(?q \<mapsto> countOf m ?q + 1)"
    from False have step: "hideStep a n (m, h) x = (m', h)"
      by (simp add: hideStep_cases m'_def)
    from False have lt: "countOf m ?q < n" by simp
    have disj: "set ks \<inter> h = {}" and dist: "distinct ks" and xh: "x \<notin> h" and xks: "x \<notin> set ks"
      using Cons.prems by auto
    let ?H = "snd (foldl (hideStep a n) (m', h) ks)"
    have xout: "x \<notin> ?H"
      using hide_bound[of a n m' h ks] xh xks by auto
    have IH: "countOf m' p + card {k \<in> set ks. retentionPackage k = p \<and> k \<notin> ?H} \<le> max n (countOf m' p)"
      by (rule Cons.IH[OF dist disj])
    show ?thesis
    proof (cases "p = ?q")
      case True
      have "{k \<in> set (x # ks). retentionPackage k = p \<and> k \<notin> ?H}
          = insert x {k \<in> set ks. retentionPackage k = p \<and> k \<notin> ?H}"
        using True xout by auto
      moreover have "x \<notin> {k \<in> set ks. retentionPackage k = p \<and> k \<notin> ?H}"
        using xks by simp
      ultimately have c: "card {k \<in> set (x # ks). retentionPackage k = p \<and> k \<notin> ?H}
          = Suc (card {k \<in> set ks. retentionPackage k = p \<and> k \<notin> ?H})"
        by simp
      have "countOf m' p = countOf m p + 1"
        using True by (simp add: m'_def countOf_def)
      with IH lt True c step show ?thesis by simp
    next
      case False
      have "{k \<in> set (x # ks). retentionPackage k = p \<and> k \<notin> ?H}
          = {k \<in> set ks. retentionPackage k = p \<and> k \<notin> ?H}"
        using False by auto
      moreover have "countOf m' p = countOf m p"
        using False by (simp add: m'_def countOf_def)
      ultimately show ?thesis using IH step by simp
    qed
  qed
qed

lemma nothing_hidden:
  "distinct ks \<Longrightarrow> \<forall>k\<in>set ks. toLowerCase (retentionPackage k) \<in> a \<Longrightarrow>
   \<forall>p. countOf m p + card {k \<in> set ks. retentionPackage k = p} \<le> n \<Longrightarrow>
   snd (foldl (hideStep a n) (m, h) ks) = h"
proof (induction ks arbitrary: m)
  case Nil
  then show ?case by simp
next
  case (Cons x ks)
  let ?q = "retentionPackage x"
  define m' where "m' = m(?q \<mapsto> countOf m ?q + 1)"
  have "x \<in> {k \<in> set (x # ks). retentionPackage k = ?q}" by simp
  then have "0 < card {k \<in> set (x # ks). retentionPackage k = ?q}"
    by (metis (no_types, lifting) card_gt_0_iff empty_iff finite_set finite_subset mem_Collect_eq subsetI)
  with Cons.prems(3) have lt: "countOf m ?q < n"
    by (metis add_lessD1 less_add_same_cancel1 order_less_le_trans)
  with Cons.prems(2) have step: "hideStep a n (m, h) x = (m', h)"
    by (simp add: hideStep_cases m'_def)
  have bound: "\<forall>p. countOf m' p + card {k \<in> set ks. retentionPackage k = p} \<le> n"
  proof
    fix p
    show "countOf m' p + card {k \<in> set ks. retentionPackage k = p} \<le> n"
    proof (cases "p = ?q")
      case True
      have "{k \<in> set (x # ks). retentionPackage k = p} = insert x {k \<in> set ks. retentionPackage k = p}"
        using True by auto
      moreover have "x \<notin> {k \<in> set ks. retentionPackage k = p}"
        using Cons.prems(1) by simp
      ultimately have "card {k \<in> set (x # ks). retentionPackage k = p}
           = Suc (card {k \<in> set ks. retentionPackage k = p})"
        by simp
      moreover have "countOf m' p = countOf m p + 1"
        using True by (simp add: m'_def countOf_def)
      ultimately show ?thesis using Cons.prems(3)[rule_format, of p] by simp
    next
      case False
      have "{k \<in> set (x # ks). retentionPackage k = p} = {k \<in> set ks. retentionPackage k = p}"
        using False by auto
      moreover have "countOf m' p = countOf m p"
        using False by (simp add: m'_def countOf_def)
      ultimately show ?thesis using Cons.prems(3)[rule_format, of p] by simp
    qed
  qed
  have "snd (foldl (hideStep a n) (m', h) ks) = h"
    using Cons.IH[of m'] Cons.prems bound by simp
  with step show ?case by simp
qed


lemma count_list_filter: "count_list (filter P xs) x = (if P x then count_list xs x else 0)"
  by (induction xs) auto

lemma sorted_keys:
  assumes "sortPermutes jsSort"
  shows "set (jsSort cmp (foldl setAdd [] (map f objs))) = f ` set objs"
    and "distinct (jsSort cmp (foldl setAdd [] (map f objs)))"
proof -
  let ?nv = "foldl setAdd [] (map f objs)"
  have m: "mset (jsSort cmp ?nv) = mset ?nv"
    using assms by (simp add: sortPermutes_def)
  have "set (jsSort cmp ?nv) = set ?nv"
    using m by (rule mset_eq_setD)
  then show "set (jsSort cmp ?nv) = f ` set objs"
    by (simp add: setAdd_fold_set)
  have "distinct ?nv"
    by (rule setAdd_fold_distinct) simp
  then show "distinct (jsSort cmp ?nv)"
    using m by (metis distinct_count_atmost_1 set_mset_mset)
qed

lemma nightly_filter:
  "nightlyPackagesToShow jsSort rc lc idx allow n =
     filter (\<lambda>obj. normalizePackageVersion obj \<notin> hiddenKeys jsSort rc lc (objects idx) allow n) (objects idx)"
  by (simp add: nightlyPackagesToShow_def hiddenKeys_def Let_def)

lemma retained_keys:
  assumes "sortPermutes jsSort"
  shows "normalizePackageVersion ` set (nightlyPackagesToShow jsSort rc lc idx allow n) =
     {k \<in> set (jsSort (versionComparator rc lc) (foldl setAdd [] (map normalizePackageVersion (objects idx)))).
        k \<notin> hiddenKeys jsSort rc lc (objects idx) allow n}"
  unfolding nightly_filter sorted_keys(1)[OF assms] by auto

lemma retained_count:
  assumes "sortPermutes jsSort"
  shows "card {k \<in> normalizePackageVersion ` set (nightlyPackagesToShow jsSort rc lc idx allow n).
            retentionPackage k = p} \<le> n"
proof -
  let ?ks = "jsSort (versionComparator rc lc) (foldl setAdd [] (map normalizePackageVersion (objects idx)))"
  let ?H = "hiddenKeys jsSort rc lc (objects idx) allow n"
  have "{k \<in> normalizePackageVersion ` set (nightlyPackagesToShow jsSort rc lc idx allow n).
            retentionPackage k = p} = {k \<in> set ?ks. retentionPackage k = p \<and> k \<notin> ?H}"
    unfolding retained_keys[OF assms] by auto
  moreover have "countOf Map.empty p + card {k \<in> set ?ks. retentionPackage k = p \<and> k \<notin> ?H}
      \<le> max n (countOf Map.empty p)"
    unfolding hiddenKeys_def
    by (rule count_bound) (simp_all add: sorted_keys(2)[OF assms])
  ultimately show ?thesis by (simp add: countOf_def)
qed

lemma retained_allowed:
  assumes "sortPermutes jsSort"
    and "obj \<in> set (nightlyPackagesToShow jsSort rc lc idx allow n)"
  shows "toLowerCase (retentionPackage (normalizePackageVersion obj)) \<in> allow"
proof (rule ccontr)
  assume na: "toLowerCase (retentionPackage (normalizePackageVersion obj)) \<notin> allow"
  let ?ks = "jsSort (versionComparator rc lc) (foldl setAdd [] (map normalizePackageVersion (objects idx)))"
  from assms(2) have o: "obj \<in> set (objects idx)"
    and nh: "normalizePackageVersion obj \<notin> hiddenKeys jsSort rc lc (objects idx) allow n"
    by (simp_all add: nightly_filter)
  from o have "normalizePackageVersion obj \<in> set ?ks"
    by (simp add: sorted_keys(1)[OF assms(1)])
  from hide_not_allowed[OF this na] nh show False
    by (simp add: hiddenKeys_def)
qed

lemma toLowerCase_idem: "toLowerCase (toLowerCase s) = toLowerCase s"
proof -
  have "lowerChar (lowerChar c) = lowerChar c" for c
    by (simp add: lowerChar_def)
  then show ?thesis by (simp add: toLowerCase_def)
qed

lemma sortBy_mset: "mset (sortBy cmp xs) = mset xs"
proof -
  have "mset (insertBy cmp x ys) = add_mset x (mset ys)" for x ys
    by (induction ys) simp_all
  then show ?thesis
    unfolding sortBy_def by (induction xs) simp_all
qed

lemma sortPermutes_sortBy: "sortPermutes sortBy"
  by (simp add: sortPermutes_def sortBy_mset)

lemmas nightly_eval =
  nightlyPackagesToShow_def nightlyExample_def newS3Index_def createS3Objects_def
  normalizePackageVersion_def basename_def lastIndexOf_def substringFrom_def setAdd_def
  sortBy_def versionComparator_def versionOf_def codeUnitCompare_def hideStep_def
  toLowerCase_def lowerChar_def startsWith_def endsWith_def lineTerminator_def
  retentionPackage_def Let_def

lemma nightlyExample_shown:
  "nightlyPackagesToShow sortBy (\<lambda>_ _. None) codeUnitCompare nightlyExample {''foo''} 2
   = createS3Objects
       [''whl/nightly/foo-3.0-cp310-linux.whl'',
        ''whl/nightly/foo-2.0-py3-none-any.whl'',
        ''whl/nightly/foo-3.0-cp311-linux.whl'']"
  by (simp add: nightly_eval)

subsection \<open>The package name of a RetentionKey\<close>


lemma lastIndexOf_split: "c \<notin> set b \<Longrightarrow> lastIndexOf (a @ c # b) c = int (length a)"
proof -
  assume n: "c \<notin> set b"
  have "takeWhile (\<lambda>d. d \<noteq> c) (rev b @ c # rev a) = rev b @ takeWhile (\<lambda>d. d \<noteq> c) (c # rev a)"
    using n by (intro takeWhile_append2) auto
  then have "takeWhile (\<lambda>d. d \<noteq> c) (rev (a @ c # b)) = rev b"
    by simp
  then show ?thesis
    by (simp add: lastIndexOf_def)
qed


lemma dirname_split: "CHR ''/'' \<notin> set b \<Longrightarrow> dirname (a @ CHR ''/'' # b) = a"
  by (simp add: dirname_def lastIndexOf_split substringTo_def)












text \<open>
  The counts are kept by the name as it is written, the allow-list is asked for the
  lower-cased name: two spellings of one allowed name are counted apart.
\<close>

lemma retention_counts_by_exact_name:
  "map key (nightlyPackagesToShow sortBy (\<lambda>_ _. None) codeUnitCompare
     (newS3Index (createS3Objects [''whl/nightly/Torch-1.0-py3-none-any.whl'',
        ''whl/nightly/torch-2.0-py3-none-any.whl'']) ''whl/nightly'') {''torch''} 1)
   = [''whl/nightly/Torch-1.0-py3-none-any.whl'', ''whl/nightly/torch-2.0-py3-none-any.whl'']"
  by code_simp

subsection \<open>The retention filter\<close>




text \<open>
  C2. The retention filter is idempotent: for every object set, allow-list and
  keep-threshold, \<open>nightlyPackagesToShow\<close> applied to its own output, with the same
  allow-list and threshold, gives that output again. The second run may order the keys
  in any way: it hides nothing, since every package is allowed and within its count.
\<close>

theorem nightlyPackagesToShow_idempotent:
  assumes "sortPermutes jsSort"
  shows "nightlyPackagesToShow jsSort rc lc
           (newS3Index (nightlyPackagesToShow jsSort rc lc idx allow n) pfx) allow n
         = nightlyPackagesToShow jsSort rc lc idx allow n"
proof -
  let ?out = "nightlyPackagesToShow jsSort rc lc idx allow n"
  let ?idx' = "newS3Index ?out pfx"
  let ?ks' = "jsSort (versionComparator rc lc) (foldl setAdd [] (map normalizePackageVersion ?out))"
  have objs': "objects ?idx' = ?out"
    by (simp add: newS3Index_def)
  have set': "set ?ks' = normalizePackageVersion ` set ?out" and dist': "distinct ?ks'"
    by (rule sorted_keys[OF assms])+
  have allowed: "\<forall>k \<in> set ?ks'. toLowerCase (retentionPackage k) \<in> allow"
    unfolding set' using retained_allowed[OF assms] by blast
  have bound: "\<forall>p. countOf Map.empty p + card {k \<in> set ?ks'. retentionPackage k = p} \<le> n"
    unfolding set' using retained_count[OF assms] by (simp add: countOf_def)
  have "hiddenKeys jsSort rc lc ?out allow n = {}"
    unfolding hiddenKeys_def by (rule nothing_hidden[OF dist' allowed bound])
  then show ?thesis
    unfolding nightly_filter[of jsSort rc lc ?idx'] objs' by simp
qed

theorem nightlyPackagesToShow_idempotent_witness:
  "sortPermutes sortBy
   \<and> nightlyPackagesToShow sortBy (\<lambda>_ _. None) codeUnitCompare
         (newS3Index
            (nightlyPackagesToShow sortBy (\<lambda>_ _. None) codeUnitCompare nightlyExample {''foo''} 2)
            ''whl/nightly'')
         {''foo''} 2
       = createS3Objects
           [''whl/nightly/foo-3.0-cp310-linux.whl'',
            ''whl/nightly/foo-2.0-py3-none-any.whl'',
            ''whl/nightly/foo-3.0-cp311-linux.whl'']"
proof -
  have p: "sortPermutes sortBy"
    by (rule sortPermutes_sortBy)
  from nightlyPackagesToShow_idempotent
    [OF p, of "\<lambda>_ _. None" codeUnitCompare nightlyExample "{''foo''}" 2 "''whl/nightly''"]
  show ?thesis using p by (simp add: nightlyExample_shown)
qed

text \<open>
  C10. For every object list, allow-list and keep-threshold, the output of the retention
  filter is a sub-list of the input in the order of the input: every retained entry is
  an entry of the input, unchanged, as often as in the input.
\<close>

theorem nightlyPackagesToShow_sublist:
  "subseq (nightlyPackagesToShow jsSort rc lc idx allow n) (objects idx)
   \<and> (\<forall>obj \<in> set (nightlyPackagesToShow jsSort rc lc idx allow n).
        count_list (nightlyPackagesToShow jsSort rc lc idx allow n) obj = count_list (objects idx) obj)"
  unfolding nightly_filter by (simp add: count_list_filter)

theorem nightlyPackagesToShow_sublist_witness:
  "subseq
     (createS3Objects
        [''whl/nightly/foo-3.0-cp310-linux.whl'',
         ''whl/nightly/foo-2.0-py3-none-any.whl'',
         ''whl/nightly/foo-3.0-cp311-linux.whl''])
     (objects nightlyExample)
   \<and> count_list
        (nightlyPackagesToShow sortBy (\<lambda>_ _. None) codeUnitCompare nightlyExample {''foo''} 2)
        (hd (createS3Objects [''whl/nightly/foo-3.0-cp310-linux.whl'']))
      = count_list (objects nightlyExample)
          (hd (createS3Objects [''whl/nightly/foo-3.0-cp310-linux.whl'']))"
proof -
  note t = nightlyPackagesToShow_sublist
    [of sortBy "\<lambda>_ _. None" codeUnitCompare nightlyExample "{''foo''}" 2]
  have m: "hd (createS3Objects [''whl/nightly/foo-3.0-cp310-linux.whl''])
      \<in> set (nightlyPackagesToShow sortBy (\<lambda>_ _. None) codeUnitCompare nightlyExample {''foo''} 2)"
    by (simp add: nightlyExample_shown createS3Objects_def)
  from t have "subseq
     (nightlyPackagesToShow sortBy (\<lambda>_ _. None) codeUnitCompare nightlyExample {''foo''} 2)
     (objects nightlyExample)"
    by (rule conjunct1)
  moreover from t m have "count_list
        (nightlyPackagesToShow sortBy (\<lambda>_ _. None) codeUnitCompare nightlyExample {''foo''} 2)
        (hd (createS3Objects [''whl/nightly/foo-3.0-cp310-linux.whl'']))
      = count_list (objects nightlyExample)
          (hd (createS3Objects [''whl/nightly/foo-3.0-cp310-linux.whl'']))"
    by blast
  ultimately show ?thesis by (simp add: nightlyExample_shown)
qed

subsection \<open>The keys of a catalog entry\<close>

lemma replaceAll_char:
  "replaceAll [a] rep s = concat (map (\<lambda>c. if c = a then rep else [c]) s)"
  by (induction s) (simp_all add: startsWith_def)

lemma sanitizeKey_no_plus: "CHR ''+'' \<notin> set (sanitizeKey k)"
  by (auto simp: sanitizeKey_def replaceAll_char split: if_splits)

lemma plus_round_trip:
  "CHR ''+'' \<notin> set s \<Longrightarrow> replaceAll ''+'' ''%2B'' (replaceAll ''%2B'' ''+'' s) = s"
proof (induction "''%2B''" "''+''" s rule: replaceAll.induct)
  case 1
  then show ?case by simp
next
  case (2 c cs)
  let ?rest = "drop (length ''%2B'' - 1) cs"
  show ?case
  proof (cases "startsWith (c # cs) ''%2B''")
    case True
    then have "take (length ''%2B'') (c # cs) = ''%2B''"
      by (simp only: startsWith_def)
    then have "c # cs = ''%2B'' @ drop (length ''%2B'') (c # cs)"
      by (metis append_take_drop_id)
    then have cs: "c # cs = ''%2B'' @ ?rest"
      by simp
    then have "set ?rest \<subseteq> set (c # cs)"
      by (metis set_append sup_ge2)
    then have "CHR ''+'' \<notin> set ?rest"
      using "2.prems" by blast
    with "2.hyps"(1) True have "replaceAll ''+'' ''%2B'' (replaceAll ''%2B'' ''+'' ?rest) = ?rest"
      by simp
    moreover have "replaceAll ''%2B'' ''+'' (c # cs) = ''+'' @ replaceAll ''%2B'' ''+'' ?rest"
      using True by simp
    ultimately have "replaceAll ''+'' ''%2B'' (replaceAll ''%2B'' ''+'' (c # cs)) = ''%2B'' @ ?rest"
      by (simp add: startsWith_def)
    with cs show ?thesis by simp
  next
    case False
    with "2.hyps"(2) "2.prems" have "replaceAll ''+'' ''%2B'' (replaceAll ''%2B'' ''+'' cs) = cs"
      by simp
    moreover have "replaceAll ''%2B'' ''+'' (c # cs) = c # replaceAll ''%2B'' ''+'' cs"
      using False by simp
    moreover have "c \<noteq> CHR ''+''"
      using "2.prems" by auto
    ultimately show ?thesis
      by (simp add: startsWith_def)
  qed
qed

lemma listPages_sanitized:
  "k \<in> set (listPages client np exts pats) \<Longrightarrow> CHR ''+'' \<notin> set k"
proof (induction client)
  case Nil
  then show ?case by simp
next
  case (Cons r rs)
  have y: "k \<in> set (yieldedKey np exts pats ok) \<Longrightarrow> CHR ''+'' \<notin> set k" for ok
    by (auto simp: yieldedKey_def Let_def sanitizeKey_no_plus split: option.splits if_splits)
  from Cons show ?case
    by (auto split: option.splits if_splits dest: y)
qed


lemma created_round_trip:
  assumes "\<forall>k \<in> set ks. CHR ''+'' \<notin> set k" and "obj \<in> set (createS3Objects ks)"
  shows "origKey obj = replaceAll ''%2B'' ''+'' (key obj) \<and> key obj = replaceAll ''+'' ''%2B'' (origKey obj)"
  using assms by (auto simp: createS3Objects_def plus_round_trip)

text \<open>
  C7. For every catalog entry that the pipeline constructs, \<open>origKey\<close> is \<open>key\<close> with every
  \<open>%2B\<close> replaced by \<open>+\<close>, and \<open>key\<close> is \<open>origKey\<close> with every \<open>+\<close> replaced by \<open>%2B\<close>.
  The entries are those that \<open>processPrefix\<close> builds from the keys that
  \<open>listObjectsWithPrefix\<close> yields, and those that the nightly filter keeps of them.
\<close>

theorem catalog_entry_key_round_trip:
  "(\<forall>obj \<in> set (createS3Objects (listObjectsWithPrefix client pfx exts pats)).
      origKey obj = replaceAll ''%2B'' ''+'' (key obj) \<and> key obj = replaceAll ''+'' ''%2B'' (origKey obj))
   \<and> (\<forall>obj \<in> set (nightlyPackagesToShow jsSort rc lc
                      (newS3Index (createS3Objects (listObjectsWithPrefix client pfx exts pats)) pfx) allow n).
      origKey obj = replaceAll ''%2B'' ''+'' (key obj) \<and> key obj = replaceAll ''+'' ''%2B'' (origKey obj))"
proof -
  let ?ks = "listObjectsWithPrefix client pfx exts pats"
  have np: "\<forall>k \<in> set ?ks. CHR ''+'' \<notin> set k"
    by (auto simp: listObjectsWithPrefix_def Let_def dest: listPages_sanitized)
  have a: "\<forall>obj \<in> set (createS3Objects ?ks).
      origKey obj = replaceAll ''%2B'' ''+'' (key obj) \<and> key obj = replaceAll ''+'' ''%2B'' (origKey obj)"
    using created_round_trip[OF np] by blast
  have "set (nightlyPackagesToShow jsSort rc lc (newS3Index (createS3Objects ?ks) pfx) allow n)
      \<subseteq> set (createS3Objects ?ks)"
    by (auto simp: nightly_filter newS3Index_def)
  with a show ?thesis by blast
qed

theorem catalog_entry_key_round_trip_witness:
  "createS3Objects (listObjectsWithPrefix
     [\<lparr>Contents = Some [Some ''whl/cpu/torch-2.0.0+cpu-cp311-linux.whl'', Some ''whl/cpu/notes.txt''],
       NextContinuationToken = None\<rparr>]
     ''whl/'' acceptedFileExtensions acceptedSubdirPatterns)
   = [\<lparr>key = ''whl/cpu/torch-2.0.0%2Bcpu-cp311-linux.whl'',
       origKey = ''whl/cpu/torch-2.0.0+cpu-cp311-linux.whl'',
       checksum = None, size' = None, pep658 = None\<rparr>]
   \<and> origKey \<lparr>key = ''whl/cpu/torch-2.0.0%2Bcpu-cp311-linux.whl'',
         origKey = ''whl/cpu/torch-2.0.0+cpu-cp311-linux.whl'',
         checksum = None, size' = None, pep658 = None\<rparr>
       = replaceAll ''%2B'' ''+'' ''whl/cpu/torch-2.0.0%2Bcpu-cp311-linux.whl''
   \<and> key \<lparr>key = ''whl/cpu/torch-2.0.0%2Bcpu-cp311-linux.whl'',
         origKey = ''whl/cpu/torch-2.0.0+cpu-cp311-linux.whl'',
         checksum = None, size' = None, pep658 = None\<rparr>
       = replaceAll ''+'' ''%2B'' ''whl/cpu/torch-2.0.0+cpu-cp311-linux.whl''"
proof -
  let ?client = "[\<lparr>Contents = Some [Some ''whl/cpu/torch-2.0.0+cpu-cp311-linux.whl'', Some ''whl/cpu/notes.txt''],
       NextContinuationToken = None\<rparr>]"
  let ?x = "\<lparr>key = ''whl/cpu/torch-2.0.0%2Bcpu-cp311-linux.whl'',
       origKey = ''whl/cpu/torch-2.0.0+cpu-cp311-linux.whl'',
       checksum = None, size' = None, pep658 = None\<rparr>"
  have e: "createS3Objects (listObjectsWithPrefix ?client ''whl/'' acceptedFileExtensions acceptedSubdirPatterns)
      = [?x]"
    by code_simp
  have "\<forall>obj \<in> set (createS3Objects
            (listObjectsWithPrefix ?client ''whl/'' acceptedFileExtensions acceptedSubdirPatterns)).
      origKey obj = replaceAll ''%2B'' ''+'' (key obj) \<and> key obj = replaceAll ''+'' ''%2B'' (origKey obj)"
    by (rule catalog_entry_key_round_trip
        [of ?client "''whl/''" acceptedFileExtensions acceptedSubdirPatterns sortBy "\<lambda>_ _. None"
          codeUnitCompare "{}" 0, THEN conjunct1])
  moreover have "?x \<in> set (createS3Objects
            (listObjectsWithPrefix ?client ''whl/'' acceptedFileExtensions acceptedSubdirPatterns))"
    unfolding e by simp
  ultimately have "origKey ?x = replaceAll ''%2B'' ''+'' (key ?x) \<and> key ?x = replaceAll ''+'' ''%2B'' (origKey ?x)"
    by (rule bspec)
  then have "origKey ?x = replaceAll ''%2B'' ''+'' ''whl/cpu/torch-2.0.0%2Bcpu-cp311-linux.whl''
      \<and> key ?x = replaceAll ''+'' ''%2B'' ''whl/cpu/torch-2.0.0+cpu-cp311-linux.whl''"
    unfolding S3Object.select_convs .
  with e show ?thesis by (rule conjI)
qed

subsection \<open>The catalog filter\<close>

lemma takeWhile_stop: "\<not> P c \<Longrightarrow> length (takeWhile P (xs @ c # ys)) \<le> length xs"
  by (induction xs) auto

lemma lastIndexOf_bounds:
  assumes "k = a @ c # b"
  shows "int (length a) \<le> lastIndexOf k c" and "lastIndexOf k c < int (length k)"
proof -
  have "length (takeWhile (\<lambda>d. d \<noteq> c) (rev b @ c # rev a)) \<le> length (rev b)"
    by (rule takeWhile_stop) simp
  then have "length (takeWhile (\<lambda>d. d \<noteq> c) (rev k)) \<le> length b"
    using assms by simp
  then show "int (length a) \<le> lastIndexOf k c" and "lastIndexOf k c < int (length k)"
    using assms by (auto simp: lastIndexOf_def)
qed

lemma yieldedKey_dirname:
  "k \<noteq> [] \<Longrightarrow> yieldedKey pfx exts pats (Some k) =
     (if hasAcceptedExtension k exts \<and> matchesSubdirPattern (dirname k) pfx pats
      then [sanitizeKey k] else [])"
  by (simp add: yieldedKey_def dirname_def Let_def)

lemma yieldedKey_under_prefix:
  assumes "startsWith k (pfx @ ''/'')"
  shows "yieldedKey pfx exts pats (Some k) = (if acceptedBySpec pfx exts pats k then [sanitizeKey k] else [])"
proof -
  from assms have "take (length (pfx @ ''/'')) k = pfx @ ''/''"
    by (simp only: startsWith_def)
  then have k: "k = pfx @ CHR ''/'' # drop (length pfx + 1) k"
    by (metis append_take_drop_id append.assoc append_Cons append_Nil length_append_singleton Suc_eq_plus1)
  then have ne: "k \<noteq> []" by auto
  note b = lastIndexOf_bounds[OF k]
  let ?i = "lastIndexOf k CHR ''/''"
  have dir: "dirname k = take (nat ?i) k"
    using b by (simp add: dirname_def substringTo_def Let_def)
  have split: "dirname k = pfx \<or> startsWith (dirname k) (pfx @ ''/'')"
  proof (cases "nat ?i = length pfx")
    case True
    then show ?thesis using k dir by (metis append_eq_conv_conj)
  next
    case False
    with b have "length pfx + 1 \<le> nat ?i" by linarith
    then have "take (length pfx + 1) (take (nat ?i) k) = take (length pfx + 1) k"
      by (simp add: min_def)
    also have "\<dots> = pfx @ ''/''"
      using k by (metis append.assoc append_Cons append_Nil append_eq_conv_conj length_append_singleton Suc_eq_plus1)
    finally show ?thesis
      by (simp add: dir startsWith_def)
  qed
  have notboth: "startsWith (dirname k) (pfx @ ''/'') \<Longrightarrow> dirname k \<noteq> pfx"
    by (auto simp: startsWith_def)
  have "matchesSubdirPattern (dirname k) pfx pats =
      (dirname k = pfx
       \<or> (startsWith (dirname k) (pfx @ ''/'')
          \<and> CHR ''/'' \<notin> set (drop (length pfx + 1) (dirname k))
          \<and> list_ex (\<lambda>pattern. pattern (drop (length pfx + 1) (dirname k))) pats))"
    using split notboth
    by (auto simp: matchesSubdirPattern_def substringFrom_def Let_def nat_add_distrib)
  then show ?thesis
    by (simp add: yieldedKey_dirname[OF ne] acceptedBySpec_def)
qed

text \<open>
  C3. The catalog filter is to yield a key if and only if the key has an accepted
  extension and its parent directory is the feed prefix or a direct child of it whose
  last segment matches a pattern (\<open>acceptedBySpec\<close>). For keys that start with the prefix
  and a slash the code does so (\<open>yieldedKey_under_prefix\<close>). But \<open>matchesSubdirPattern\<close>
  cuts \<open>prefix.length + 1\<close> characters off the directory without looking at them, and
  the listing is asked for every key that starts with the prefix, with no slash after
  it: at the prefix \<open>whl\<close> the key \<open>whl-cpu/torch-2.0.0-cp311-none-any.whl\<close> is yielded,
  its directory \<open>whl-cpu\<close> being read as the child \<open>cpu\<close>.
\<close>

theorem listObjectsWithPrefix_sibling_directory:
  "listObjectsWithPrefix
     [\<lparr>Contents = Some [Some ''whl-cpu/torch-2.0.0-cp311-none-any.whl''], NextContinuationToken = None\<rparr>]
     ''whl'' acceptedFileExtensions acceptedSubdirPatterns
   = [''whl-cpu/torch-2.0.0-cp311-none-any.whl'']
   \<and> \<not> acceptedBySpec ''whl'' acceptedFileExtensions acceptedSubdirPatterns
         ''whl-cpu/torch-2.0.0-cp311-none-any.whl''"
proof
  show "listObjectsWithPrefix
     [\<lparr>Contents = Some [Some ''whl-cpu/torch-2.0.0-cp311-none-any.whl''], NextContinuationToken = None\<rparr>]
     ''whl'' acceptedFileExtensions acceptedSubdirPatterns
   = [''whl-cpu/torch-2.0.0-cp311-none-any.whl'']"
    by code_simp
  show "\<not> acceptedBySpec ''whl'' acceptedFileExtensions acceptedSubdirPatterns
         ''whl-cpu/torch-2.0.0-cp311-none-any.whl''"
    by (simp add: acceptedBySpec_def dirname_def lastIndexOf_def substringTo_def startsWith_def)
qed


subsection \<open>The checksum of a multipart upload\<close>

text \<open>
  The test of \<open>MULTIPART_UPLOAD_REGEX\<close> above is the regular expression: it holds of the
  texts that are a non-empty run of the class, then \<open>=\<close>, \<open>-\<close> and digits.
\<close>

lemma multipart_regex_matches:
  assumes "payload \<noteq> []" "list_all isBase64Class payload" "partCount \<noteq> []" "list_all isDigit partCount"
  shows "MULTIPART_UPLOAD_REGEX (payload @ ''=-'' @ partCount)"
proof -
  have cls: "\<forall>c \<in> set (payload @ ''=''). isBase64Class c"
    using assms(2) by (auto simp: list_all_iff isBase64Class_def)
  have stop: "\<not> isBase64Class CHR ''-''"
    by (simp add: isBase64Class_def)
  have s: "payload @ ''=-'' @ partCount = (payload @ ''='') @ CHR ''-'' # partCount"
    by simp
  have "takeWhile isBase64Class ((payload @ ''='') @ CHR ''-'' # partCount)
      = (payload @ ''='') @ takeWhile isBase64Class (CHR ''-'' # partCount)"
    using cls by (intro takeWhile_append2) blast
  then have "takeWhile isBase64Class ((payload @ ''='') @ CHR ''-'' # partCount) = payload @ ''=''"
    using stop by simp
  moreover have "dropWhile isBase64Class ((payload @ ''='') @ CHR ''-'' # partCount)
      = dropWhile isBase64Class (CHR ''-'' # partCount)"
    using cls by (intro dropWhile_append2) blast
  then have "dropWhile isBase64Class ((payload @ ''='') @ CHR ''-'' # partCount) = CHR ''-'' # partCount"
    using stop by simp
  ultimately show ?thesis
    unfolding s MULTIPART_UPLOAD_REGEX_def Let_def using assms(1,3,4)
    by (cases payload) simp_all
qed

lemma multipart_regex_shape:
  assumes "MULTIPART_UPLOAD_REGEX s"
  shows "\<exists>payload partCount. s = payload @ ''=-'' @ partCount \<and> payload \<noteq> []
           \<and> list_all isBase64Class payload \<and> partCount \<noteq> [] \<and> list_all isDigit partCount"
proof -
  let ?run = "takeWhile isBase64Class s" and ?rest = "dropWhile isBase64Class s"
  from assms obtain digits where r: "?rest = CHR ''-'' # digits" "digits \<noteq> []" "list_all isDigit digits"
    and len: "2 \<le> length ?run" and l: "last ?run = CHR ''=''"
    by (auto simp: MULTIPART_UPLOAD_REGEX_def Let_def split: list.splits)
  from len have ne: "?run \<noteq> []" by auto
  then have run: "?run = butlast ?run @ ''=''"
    using l by (metis append_butlast_last_id)
  have "s = ?run @ ?rest" by simp
  with run r(1) have "s = butlast ?run @ ''=-'' @ digits" by (metis append.assoc append_Cons append_Nil)
  moreover from len have "butlast ?run \<noteq> []"
    by (metis One_nat_def Suc_1 length_butlast list.size(3) not_less_eq_eq diff_is_0_eq' le_numeral_extra(4) Suc_le_eq zero_less_diff length_greater_0_conv)
  moreover have "list_all isBase64Class (butlast ?run)"
    by (metis (full_types) in_set_butlastD list_all_iff set_takeWhileD)
  ultimately show ?thesis using r by blast
qed

text \<open>The example of the specification: \<open>YWJj\<close> decodes to \<open>616263\<close>.\<close>

lemma base64_example: "base64ToHex ''YWJj'' = Some ''616263''"
  by code_simp

text \<open>A checksum that the test does not recognise is decoded.\<close>

lemma parseChecksum_decodes:
  assumes "ChecksumSHA256 response = Some c" "c \<noteq> []" "\<not> MULTIPART_UPLOAD_REGEX c"
  shows "parseChecksum decode response = decode c"
  using assms by (simp add: parseChecksum_def truthy_def)

text \<open>
  C4, as stated, fails. A composite digest is worded as a base64 payload followed by
  \<open>-<partCount>\<close>; the regular expression asks for \<open>=\<close> right before the \<open>-\<close>, so a payload
  without padding is not recognised and its decoding is returned as the checksum.
\<close>

theorem parseChecksum_unpadded_composite:
  "compositeDigestShape ''YWJj-2''
   \<and> parseChecksum base64ToHex
       \<lparr>ChecksumSHA256 = Some ''YWJj-2'', ContentLength = Some 4, Metadata = None\<rparr>
     = Some ''616263fb''"
  by code_simp

text \<open>
  C4, amended. For every HeadObject response whose \<open>ChecksumSHA256\<close> is a base64 payload
  that ends in the padding \<open>=\<close>, followed by \<open>-<partCount>\<close> (as every composite SHA-256
  digest is: 43 characters of the alphabet and one \<open>=\<close>), \<open>parseChecksum\<close> returns
  undefined, whatever the decoder and the metadata fields are.
\<close>

theorem parseChecksum_discards_padded_composite:
  assumes "ChecksumSHA256 response = Some (payload @ ''=-'' @ partCount)"
    and "payload \<noteq> []" and "list_all isBase64Class payload"
    and "partCount \<noteq> []" and "list_all isDigit partCount"
  shows "parseChecksum decode response = None"
  using multipart_regex_matches[OF assms(2-5)] assms(1)
  by (simp add: parseChecksum_def truthy_def)

theorem parseChecksum_discards_padded_composite_witness:
  "parseChecksum base64ToHex
     \<lparr>ChecksumSHA256 = Some ''47DEQpj8HBSa+/TImW+5JCeuQeRkm5NMpJWZG3hSuFU=-12'',
      ContentLength = Some 5, Metadata = None\<rparr> = None"
proof -
  have "''47DEQpj8HBSa+/TImW+5JCeuQeRkm5NMpJWZG3hSuFU=-12''
      = ''47DEQpj8HBSa+/TImW+5JCeuQeRkm5NMpJWZG3hSuFU'' @ ''=-'' @ ''12''"
    by simp
  then have "ChecksumSHA256 \<lparr>ChecksumSHA256 = Some ''47DEQpj8HBSa+/TImW+5JCeuQeRkm5NMpJWZG3hSuFU=-12'',
      ContentLength = Some 5, Metadata = None\<rparr>
      = Some (''47DEQpj8HBSa+/TImW+5JCeuQeRkm5NMpJWZG3hSuFU'' @ ''=-'' @ ''12'')"
    by simp
  moreover have "''47DEQpj8HBSa+/TImW+5JCeuQeRkm5NMpJWZG3hSuFU'' \<noteq> []" by simp
  moreover have "list_all isBase64Class ''47DEQpj8HBSa+/TImW+5JCeuQeRkm5NMpJWZG3hSuFU''" by code_simp
  moreover have "''12'' \<noteq> []" by simp
  moreover have "list_all isDigit ''12''" by code_simp
  ultimately show ?thesis
    by (rule parseChecksum_discards_padded_composite)
qed


subsection \<open>Lines, joins and the timestamp\<close>

lemma endsWith_suffix: "endsWith s p = suffix p s"
proof
  assume "endsWith s p"
  then have "s = take (length s - length p) s @ p"
    by (metis append_take_drop_id endsWith_def)
  then show "suffix p s" by (metis suffixI)
next
  assume "suffix p s"
  then obtain u where "s = u @ p" by (auto simp: suffix_def)
  then show "endsWith s p" by (simp add: endsWith_def)
qed

lemma joinLines_snoc: "ls \<noteq> [] \<Longrightarrow> joinLines (ls @ [l]) = joinLines ls @ [CHR 0x0A] @ l"
  by (induction ls rule: joinLines.induct) simp_all

lemma joinLines_last: "ls \<noteq> [] \<Longrightarrow> suffix (last ls) (joinLines ls)"
proof (induction ls rule: joinLines.induct)
  case 1
  then show ?case by simp
next
  case (2 l)
  then show ?case by simp
next
  case (3 l m ls)
  then have "suffix (last (m # ls)) (joinLines (m # ls))" by simp
  then have "suffix (last (m # ls)) ((l @ [CHR 0x0A]) @ joinLines (m # ls))"
    by (rule suffix_appendI)
  then show ?case
    by (metis append.assoc joinLines.simps(3) last_ConsR list.discI)
qed

lemma joinLines_line: "l \<in> set ls \<Longrightarrow> sublist l (joinLines ls)"
proof (induction ls rule: joinLines.induct)
  case 1
  then show ?case by simp
next
  case (2 l')
  then show ?case by simp
next
  case (3 l' m ls)
  show ?case
  proof (cases "l = l'")
    case True
    then show ?thesis by (simp add: sublist_append)
  next
    case False
    with 3 have "sublist l (joinLines (m # ls))" by simp
    then show ?thesis by (metis joinLines.simps(3) sublist_append)
  qed
qed

lemma set_joinLines: "set (joinLines ls) \<subseteq> insert CHR 0x0A (\<Union> (set ` set ls))"
  by (induction ls rule: joinLines.induct) auto

lemma decimal_digits: "set (decimal n) \<subseteq> set ''0123456789''"
proof (induction n rule: decimal.induct)
  case (1 n)
  have d: "k < 10 \<Longrightarrow> ''0123456789'' ! k \<in> set ''0123456789''" for k
    by (rule nth_mem) simp
  show ?case
  proof (cases "n < 10")
    case True
    then show ?thesis using d[of n] by (subst decimal.simps) simp
  next
    case False
    then have "set (decimal (n div 10)) \<subseteq> set ''0123456789''" using 1 by simp
    moreover have "''0123456789'' ! (n mod 10) \<in> set ''0123456789''" by (rule d) simp
    ultimately show ?thesis using False by (subst decimal.simps) simp
  qed
qed

lemma decimal_no_char: "c \<notin> set ''0123456789'' \<Longrightarrow> c \<notin> set (decimal n)"
  using decimal_digits[of n] by blast

lemma timestampComment_one_line: "CHR 0x0A \<notin> set (timestampComment now)"
proof -
  have "CHR 0x0A \<notin> set (decimal (now div 1000))"
    by (rule decimal_no_char) simp
  then show ?thesis by (simp add: timestampComment_def)
qed

lemma timestampComment_suffix: "suffix ''-->'' (timestampComment now)"
  by (simp add: timestampComment_def suffix_def)

lemma timestampComment_example: "timestampComment 1700000000123 = ''<!--TIMESTAMP 1700000000-->''"
  by (simp add: timestampComment_def decimal.simps)

subsection \<open>The two simple pages and the timestamp\<close>

lemma simplePackagesLines_split:
  "\<exists>pre. pre \<noteq> [] \<and> (\<forall>now. simplePackagesLines now names = pre @ [timestampComment now])"
  by (rule exI[of _ "butlast (simplePackagesLines 0 names)"]) (simp add: simplePackagesLines_def butlast_append)

lemma simplePackageLines_split:
  "\<exists>pre. pre \<noteq> [] \<and> (\<forall>now. simplePackageLines lc now objs pkg nightly = pre @ [timestampComment now])"
  by (rule exI[of _ "butlast (simplePackageLines lc 0 objs pkg nightly)"])
    (simp add: simplePackageLines_def butlast_append)

lemma sort_set_unique:
  fixes xs ys :: "string list"
  assumes "set xs = set ys" "distinct xs" "distinct ys"
  shows "sort xs = sort ys"
  using assms by (intro sorted_distinct_set_unique) simp_all

text \<open>
  C9. The package-listing and per-package renderers are deterministic modulo the
  timestamp comment: for a fixed input the output is a text that does not depend on the
  time, a line break, and the comment \<open><!--TIMESTAMP ...-->\<close>, which holds no line
  break and so is the last line. For the package listing the input is a set of names:
  two lists of the same names, in any order of insertion, give the same page.
\<close>

theorem renderers_deterministic_modulo_timestamp:
  "(\<exists>body. \<forall>now. generateSimplePackagesHtml now names = body @ [CHR 0x0A] @ timestampComment now)
   \<and> (\<exists>body. \<forall>now. generateSimplePackageHtml lc now objs pkg nightly
                     = body @ [CHR 0x0A] @ timestampComment now)
   \<and> CHR 0x0A \<notin> set (timestampComment t)
   \<and> (set names = set names' \<and> distinct names \<and> distinct names'
        \<longrightarrow> generateSimplePackagesHtml t names = generateSimplePackagesHtml t names')"
proof (intro conjI impI)
  from simplePackagesLines_split[of names] obtain pre
    where "pre \<noteq> []" "\<forall>now. simplePackagesLines now names = pre @ [timestampComment now]"
    by blast
  then have "\<forall>now. generateSimplePackagesHtml now names = joinLines pre @ [CHR 0x0A] @ timestampComment now"
    by (simp add: generateSimplePackagesHtml_def joinLines_snoc)
  then show "\<exists>body. \<forall>now. generateSimplePackagesHtml now names = body @ [CHR 0x0A] @ timestampComment now"
    by (rule exI)
next
  from simplePackageLines_split[of lc objs pkg nightly] obtain pre
    where "pre \<noteq> []" "\<forall>now. simplePackageLines lc now objs pkg nightly = pre @ [timestampComment now]"
    by blast
  then have "\<forall>now. generateSimplePackageHtml lc now objs pkg nightly
      = joinLines pre @ [CHR 0x0A] @ timestampComment now"
    by (simp add: generateSimplePackageHtml_def joinLines_snoc)
  then show "\<exists>body. \<forall>now. generateSimplePackageHtml lc now objs pkg nightly
      = body @ [CHR 0x0A] @ timestampComment now"
    by (rule exI)
next
  show "CHR 0x0A \<notin> set (timestampComment t)"
    by (rule timestampComment_one_line)
next
  assume "set names = set names' \<and> distinct names \<and> distinct names'"
  then have "sort names = sort names'"
    by (intro sort_set_unique) simp_all
  then show "generateSimplePackagesHtml t names = generateSimplePackagesHtml t names'"
    by (simp add: generateSimplePackagesHtml_def simplePackagesLines_def)
qed

theorem renderers_deterministic_modulo_timestamp_witness:
  "generateSimplePackagesHtml 1700000000123 [''torch'', ''numpy'']
   = generateSimplePackagesHtml 1700000000123 [''numpy'', ''torch'']"
proof -
  have "set [''torch'', ''numpy''] = set [''numpy'', ''torch''] \<and> distinct [''torch'', ''numpy'']
      \<and> distinct [''numpy'', ''torch'']"
    by auto
  with renderers_deterministic_modulo_timestamp
    [of "[''torch'', ''numpy'']" codeUnitCompare "[]" "[]" False 1700000000123 "[''numpy'', ''torch'']"]
  show ?thesis by blast
qed

subsection \<open>The raw listing\<close>

lemma libtorchEntry_shape:
  \<open>l \<in> set (libtorchEntry subdir pfx x) \<Longrightarrow> \<exists>t. l = ''<a href="/'' @ key x @ ''">'' @ t @ ''</a><br/>''\<close>
  by (auto simp: libtorchEntry_def Let_def split: if_splits)

lemma libtorch_lines:
  \<open>l \<in> set (sort (concat (map (libtorchEntry subdir pfx) objs)))
   \<Longrightarrow> \<exists>x \<in> set objs. \<exists>t. l = ''<a href="/'' @ key x @ ''">'' @ t @ ''</a><br/>''\<close>
  using libtorchEntry_shape by fastforce

lemma endsWith_same_length:
  "endsWith s a \<Longrightarrow> endsWith s b \<Longrightarrow> length a = length b \<Longrightarrow> a = b"
  by (simp add: endsWith_def)

lemma endsWith_trans: "endsWith s b \<Longrightarrow> endsWith b a \<Longrightarrow> endsWith s a"
  unfolding endsWith_suffix by (rule suffix_order.trans)

lemma libtorch_end:
  \<open>generateLibtorchHtml objs subdir pfx = [] \<or> endsWith (generateLibtorchHtml objs subdir pfx) ''</a><br/>''\<close>
proof (cases "sort (concat (map (libtorchEntry subdir pfx) objs)) = []")
  case True
  then show ?thesis by (simp add: generateLibtorchHtml_def)
next
  case False
  let ?ls = "sort (concat (map (libtorchEntry subdir pfx) objs))"
  from False have "last ?ls \<in> set ?ls" by (rule last_in_set)
  from libtorch_lines[OF this] have "endsWith (last ?ls) ''</a><br/>''"
    unfolding endsWith_suffix by (auto simp: suffix_def)
  moreover have "endsWith (joinLines ?ls) (last ?ls)"
    unfolding endsWith_suffix using False by (rule joinLines_last)
  ultimately have "endsWith (joinLines ?ls) ''</a><br/>''"
    by (rule endsWith_trans[rotated])
  then show ?thesis by (simp add: generateLibtorchHtml_def)
qed

lemma substringTo_lastIndexOf: "substringTo k (lastIndexOf k CHR ''/'') = dirname k"
  by (simp add: dirname_def substringTo_def lastIndexOf_def Let_def)

lemma libtorch_entries:
  \<open>concat (map (libtorchEntry subdir pfx) objs)
   = map (\<lambda>obj. ''<a href="/'' @ key obj @ ''">''
                @ (let s = (if startsWith (key obj) subdir then drop (length subdir) (key obj) else key obj)
                   in if startsWith s ''/'' then drop 1 s else s)
                @ ''</a><br/>'')
       (filter (\<lambda>obj. subdir = pfx \<or> dirname (key obj) \<noteq> pfx) objs)\<close>
  by (induction objs) (auto simp: libtorchEntry_def substringTo_lastIndexOf substringFrom_def Let_def)

text \<open>
  C5, as stated, fails: \<open>generateLibtorchHtml\<close> returns its link lines and nothing else.
  For a subdirectory with one archive the page is that one link, and it does not end
  in \<open>-->\<close>.
\<close>

theorem generateLibtorchHtml_no_timestamp:
  \<open>generateLibtorchHtml (createS3Objects [''libtorch/cpu/libtorch-2.0.0.zip'', ''libtorch/README.json''])
     ''libtorch/cpu'' ''libtorch''
   = ''<a href="/libtorch/cpu/libtorch-2.0.0.zip">libtorch-2.0.0.zip</a><br/>''
   \<and> \<not> endsWith (generateLibtorchHtml
          (createS3Objects [''libtorch/cpu/libtorch-2.0.0.zip'', ''libtorch/README.json''])
          ''libtorch/cpu'' ''libtorch'') ''-->''\<close>
  by code_simp

text \<open>
  C5, amended. For every input object list, subdirectory and prefix, the output of
  \<open>generateLibtorchHtml\<close> is exactly this: one line \<open><a href="/key">text</a><br/>\<close> for
  every object of the input, except the objects of the root directory when the
  subdirectory is not the root, where \<open>text\<close> is the key without the leading
  subdirectory and without one leading slash; the lines sorted in ascending order of
  their code units and joined by line breaks. It is empty or ends in \<open></a><br/>\<close>, and
  it never ends with the comment \<open><!--TIMESTAMP <epoch-seconds>-->\<close>, which only the two
  simple pages carry.
\<close>

theorem generateLibtorchHtml_sorted_links:
  \<open>generateLibtorchHtml objs subdir pfx
     = joinLines (sort
         (map (\<lambda>obj. ''<a href="/'' @ key obj @ ''">''
                  @ (let s = (if startsWith (key obj) subdir then drop (length subdir) (key obj)
                              else key obj)
                     in if startsWith s ''/'' then drop 1 s else s)
                  @ ''</a><br/>'')
            (filter (\<lambda>obj. subdir = pfx \<or> dirname (key obj) \<noteq> pfx) objs)))
   \<and> (generateLibtorchHtml objs subdir pfx = []
       \<or> endsWith (generateLibtorchHtml objs subdir pfx) ''</a><br/>'')
   \<and> \<not> endsWith (generateLibtorchHtml objs subdir pfx) (timestampComment now)\<close>
proof (intro conjI)
  show \<open>generateLibtorchHtml objs subdir pfx
     = joinLines (sort
         (map (\<lambda>obj. ''<a href="/'' @ key obj @ ''">''
                  @ (let s = (if startsWith (key obj) subdir then drop (length subdir) (key obj)
                              else key obj)
                     in if startsWith s ''/'' then drop 1 s else s)
                  @ ''</a><br/>'')
            (filter (\<lambda>obj. subdir = pfx \<or> dirname (key obj) \<noteq> pfx) objs)))\<close>
    unfolding generateLibtorchHtml_def libtorch_entries ..
  show e: \<open>generateLibtorchHtml objs subdir pfx = []
       \<or> endsWith (generateLibtorchHtml objs subdir pfx) ''</a><br/>''\<close>
    by (rule libtorch_end)
  show "\<not> endsWith (generateLibtorchHtml objs subdir pfx) (timestampComment now)"
  proof
    let ?out = "generateLibtorchHtml objs subdir pfx"
    assume a: "endsWith ?out (timestampComment now)"
    have "endsWith (timestampComment now) ''-->''"
      unfolding endsWith_suffix by (rule timestampComment_suffix)
    with a have c: "endsWith ?out ''-->''" by (rule endsWith_trans)
    then have "?out \<noteq> []" by (auto simp: endsWith_def)
    with e have "endsWith ?out ''</a><br/>''" by simp
    moreover have "endsWith ''</a><br/>'' ''r/>''" by (simp add: endsWith_def)
    ultimately have "endsWith ?out ''r/>''" by (rule endsWith_trans)
    from endsWith_same_length[OF c this] show False by simp
  qed
qed

theorem generateLibtorchHtml_sorted_links_witness:
  \<open>generateLibtorchHtml
     (createS3Objects [''libtorch/cpu/libtorch-2.1.0.zip'', ''libtorch/README.json'',
        ''libtorch/cpu/libtorch-2.0.0.zip''])
     ''libtorch/cpu'' ''libtorch''
   = ''<a href="/libtorch/cpu/libtorch-2.0.0.zip">libtorch-2.0.0.zip</a><br/>'' @ [CHR 0x0A]
     @ ''<a href="/libtorch/cpu/libtorch-2.1.0.zip">libtorch-2.1.0.zip</a><br/>''
   \<and> \<not> endsWith (generateLibtorchHtml
          (createS3Objects [''libtorch/cpu/libtorch-2.1.0.zip'', ''libtorch/README.json'',
             ''libtorch/cpu/libtorch-2.0.0.zip''])
          ''libtorch/cpu'' ''libtorch'') (timestampComment 1700000000123)\<close>
proof -
  let ?objs = "createS3Objects [''libtorch/cpu/libtorch-2.1.0.zip'', ''libtorch/README.json'',
        ''libtorch/cpu/libtorch-2.0.0.zip'']"
  note t = generateLibtorchHtml_sorted_links[of ?objs "''libtorch/cpu''" "''libtorch''" 1700000000123]
  have \<open>joinLines (sort
         (map (\<lambda>obj. ''<a href="/'' @ key obj @ ''">''
                  @ (let s = (if startsWith (key obj) ''libtorch/cpu''
                              then drop (length ''libtorch/cpu'') (key obj) else key obj)
                     in if startsWith s ''/'' then drop 1 s else s)
                  @ ''</a><br/>'')
            (filter (\<lambda>obj. ''libtorch/cpu'' = ''libtorch'' \<or> dirname (key obj) \<noteq> ''libtorch'') ?objs)))
     = ''<a href="/libtorch/cpu/libtorch-2.0.0.zip">libtorch-2.0.0.zip</a><br/>'' @ [CHR 0x0A]
     @ ''<a href="/libtorch/cpu/libtorch-2.1.0.zip">libtorch-2.1.0.zip</a><br/>''\<close>
    by code_simp
  with t[THEN conjunct1] have \<open>generateLibtorchHtml ?objs ''libtorch/cpu'' ''libtorch''
     = ''<a href="/libtorch/cpu/libtorch-2.0.0.zip">libtorch-2.0.0.zip</a><br/>'' @ [CHR 0x0A]
     @ ''<a href="/libtorch/cpu/libtorch-2.1.0.zip">libtorch-2.1.0.zip</a><br/>''\<close>
    by (rule trans)
  moreover from t have "\<not> endsWith (generateLibtorchHtml ?objs ''libtorch/cpu'' ''libtorch'')
      (timestampComment 1700000000123)"
    by (rule conjunct2[THEN conjunct2])
  ultimately show ?thesis by (rule conjI)
qed

subsection \<open>The order of the links of a package\<close>

lemma set_insertBy: "set (insertBy cmp x ys) = insert x (set ys)"
  by (induction ys) auto

lemma sorted_insertBy:
  assumes total: "\<And>a b. cmp a b \<le> 0 \<or> cmp b a \<le> 0"
    and trans: "\<And>a b c. cmp a b \<le> 0 \<Longrightarrow> cmp b c \<le> 0 \<Longrightarrow> cmp a c \<le> 0"
    and "sorted_wrt (\<lambda>a b. cmp a b \<le> 0) ys"
  shows "sorted_wrt (\<lambda>a b. cmp a b \<le> 0) (insertBy cmp x ys)"
  using assms(3)
proof (induction ys)
  case Nil
  then show ?case by simp
next
  case (Cons y ys)
  show ?case
  proof (cases "cmp x y \<le> 0")
    case True
    with Cons.prems show ?thesis by (auto intro: trans)
  next
    case False
    with total[of x y] have "cmp y x \<le> 0" by simp
    with False Cons show ?thesis by (auto simp: set_insertBy)
  qed
qed

lemma sorted_sortBy:
  assumes "\<And>a b. cmp a b \<le> 0 \<or> cmp b a \<le> 0"
    and "\<And>a b c. cmp a b \<le> 0 \<Longrightarrow> cmp b c \<le> 0 \<Longrightarrow> cmp a c \<le> 0"
  shows "sorted_wrt (\<lambda>a b. cmp a b \<le> 0) (sortBy cmp xs)"
  unfolding sortBy_def
  by (induction xs) (simp_all add: sorted_insertBy[OF assms])

lemma sorted_by_key:
  fixes objs :: "S3Object list"
  assumes "consistentComparator lc"
  shows "sorted_wrt (\<lambda>a b. lc (key a) (key b) \<le> 0) (sortBy (\<lambda>a b. lc (key a) (key b)) objs)"
proof -
  have t: "lc (key a) (key b) \<le> 0 \<or> lc (key b) (key a) \<le> 0" for a b :: S3Object
    using assms unfolding consistentComparator_def by blast
  have tr: "lc (key a) (key b) \<le> 0 \<Longrightarrow> lc (key b) (key c) \<le> 0 \<Longrightarrow> lc (key a) (key c) \<le> 0"
    for a b c :: S3Object
    using assms unfolding consistentComparator_def by blast
  show ?thesis
    by (rule sorted_sortBy[where cmp="\<lambda>a b. lc (key a) (key b)", OF t tr])
qed

lemma consistent_codeUnitCompare: "consistentComparator codeUnitCompare"
  unfolding consistentComparator_def codeUnitCompare_def by auto

lemma link_lines:
  "take (length objs) (drop 4 (simplePackageLines lc now objs pkg nightly))
   = map (packageLink nightly) (sortBy (\<lambda>a b. lc (key a) (key b)) objs)"
proof -
  have "length (sortBy (\<lambda>a b. lc (key a) (key b)) objs) = length objs"
    by (metis sortBy_mset size_mset)
  then show ?thesis by (simp add: simplePackageLines_def)
qed

lemma sortBy_three:
  assumes "cmp b c \<le> 0" "\<not> cmp a b \<le> 0" "\<not> cmp a c \<le> 0"
  shows "sortBy cmp [a, b, c] = [b, c, a]"
  using assms by (simp add: sortBy_def)

lemma consistent_collationCompare: "consistentComparator collationCompare"
  unfolding consistentComparator_def collationCompare_def codeUnitCompare_def Let_def by auto

lemma filter_insertBy:
  assumes trans: "\<And>a b c. cmp a b \<le> 0 \<Longrightarrow> cmp b c \<le> 0 \<Longrightarrow> cmp a c \<le> 0"
  shows "filter (\<lambda>y. cmp x y \<le> 0 \<and> cmp y x \<le> 0) (insertBy cmp a ys)
         = (if cmp x a \<le> 0 \<and> cmp a x \<le> 0
            then a # filter (\<lambda>y. cmp x y \<le> 0 \<and> cmp y x \<le> 0) ys
            else filter (\<lambda>y. cmp x y \<le> 0 \<and> cmp y x \<le> 0) ys)"
proof (induction ys)
  case Nil
  then show ?case by simp
next
  case (Cons y ys)
  show ?case
  proof (cases "cmp a y \<le> 0")
    case True
    then show ?thesis by simp
  next
    case False
    have "\<not> (cmp x a \<le> 0 \<and> cmp a x \<le> 0 \<and> cmp x y \<le> 0 \<and> cmp y x \<le> 0)"
      using False trans[of a x y] by blast
    with False Cons show ?thesis by auto
  qed
qed

lemma filter_sortBy:
  assumes "\<And>a b c. cmp a b \<le> 0 \<Longrightarrow> cmp b c \<le> 0 \<Longrightarrow> cmp a c \<le> 0"
  shows "filter (\<lambda>y. cmp x y \<le> 0 \<and> cmp y x \<le> 0) (sortBy cmp xs)
         = filter (\<lambda>y. cmp x y \<le> 0 \<and> cmp y x \<le> 0) xs"
proof (induction xs)
  case Nil
  then show ?case by (simp add: sortBy_def)
next
  case (Cons a xs)
  have "sortBy cmp (a # xs) = insertBy cmp a (sortBy cmp xs)"
    by (simp add: sortBy_def)
  with Cons show ?case
    by (simp add: filter_insertBy[where cmp=cmp, OF assms])
qed

lemma stable_by_key:
  fixes objs :: "S3Object list" and x :: S3Object
  assumes "consistentComparator lc"
  shows "filter (\<lambda>y. lc (key x) (key y) \<le> 0 \<and> lc (key y) (key x) \<le> 0)
           (sortBy (\<lambda>a b. lc (key a) (key b)) objs)
         = filter (\<lambda>y. lc (key x) (key y) \<le> 0 \<and> lc (key y) (key x) \<le> 0) objs"
proof -
  have tr: "lc (key a) (key b) \<le> 0 \<Longrightarrow> lc (key b) (key c) \<le> 0 \<Longrightarrow> lc (key a) (key c) \<le> 0"
    for a b c :: S3Object
    using assms unfolding consistentComparator_def by blast
  show ?thesis
    by (rule filter_sortBy[where cmp="\<lambda>a b. lc (key a) (key b)", OF tr])
qed

text \<open>
  C8, as stated, fails. The comparator of the sort is \<open>a.key.localeCompare(b.key)\<close>, the
  collation of the platform, not the order of the code units: of the keys
  \<open>whl/Torch-1.0-...\<close> and \<open>whl/torch-0.9-...\<close>, which are on the one page of the package
  \<open>torch\<close>, the first is the smaller by its code units, and the page lists it last.
\<close>

theorem generateSimplePackageHtml_not_lexical:
  \<open>take 2 (drop 4 (simplePackageLines collationCompare 1700000000123
       (createS3Objects [''whl/Torch-1.0-py3-none-any.whl'', ''whl/torch-0.9-py3-none-any.whl''])
       ''torch'' False))
   = [''    <a href="/whl/torch-0.9-py3-none-any.whl">torch-0.9-py3-none-any.whl</a><br/>'',
      ''    <a href="/whl/Torch-1.0-py3-none-any.whl">Torch-1.0-py3-none-any.whl</a><br/>'']
   \<and> ''whl/Torch-1.0-py3-none-any.whl'' < ''whl/torch-0.9-py3-none-any.whl''\<close>
proof
  let ?objs = "createS3Objects [''whl/Torch-1.0-py3-none-any.whl'', ''whl/torch-0.9-py3-none-any.whl'']"
  have "take (length ?objs) (drop 4 (simplePackageLines collationCompare 1700000000123 ?objs ''torch'' False))
      = map (packageLink False) (sortBy (\<lambda>a b. collationCompare (key a) (key b)) ?objs)"
    by (rule link_lines)
  moreover have "length ?objs = 2"
    by (simp add: createS3Objects_def)
  moreover have \<open>map (packageLink False) (sortBy (\<lambda>a b. collationCompare (key a) (key b)) ?objs)
      = [''    <a href="/whl/torch-0.9-py3-none-any.whl">torch-0.9-py3-none-any.whl</a><br/>'',
         ''    <a href="/whl/Torch-1.0-py3-none-any.whl">Torch-1.0-py3-none-any.whl</a><br/>'']\<close>
    by code_simp
  ultimately show \<open>take 2 (drop 4 (simplePackageLines collationCompare 1700000000123 ?objs ''torch'' False))
   = [''    <a href="/whl/torch-0.9-py3-none-any.whl">torch-0.9-py3-none-any.whl</a><br/>'',
      ''    <a href="/whl/Torch-1.0-py3-none-any.whl">Torch-1.0-py3-none-any.whl</a><br/>'']\<close>
    by simp
  show "''whl/Torch-1.0-py3-none-any.whl'' < ''whl/torch-0.9-py3-none-any.whl''"
    by code_simp
qed

text \<open>
  C8, amended. The per-package renderer sorts the entries by their full key with the
  comparator \<open>localeCompare\<close>, the collation of the platform (a consistent comparator,
  which need not agree with the order of the code units), and the sort is stable: on
  every input the link lines, which follow the four lines of the header, are the links
  of the same entries, in ascending order of that comparison, entries whose keys compare
  equal staying in the order of the input. Where the collation puts \<open>2.0.1\<close> after
  \<open>2.0.0\<close> and \<open>2.1.0\<close> after \<open>2.0.1\<close>, as it does, the entries \<open>torch-2.1.0\<close>,
  \<open>torch-2.0.0\<close>, \<open>torch-2.0.1\<close> are rendered in the order \<open>2.0.0\<close>, \<open>2.0.1\<close>, \<open>2.1.0\<close>.
\<close>

theorem generateSimplePackageHtml_sorted_by_localeCompare:
  assumes "consistentComparator lc"
  shows \<open>take (length objs) (drop 4 (simplePackageLines lc now objs pkg nightly))
            = map (packageLink nightly) (sortBy (\<lambda>a b. lc (key a) (key b)) objs)
         \<and> mset (sortBy (\<lambda>a b. lc (key a) (key b)) objs) = mset objs
         \<and> sorted_wrt (\<lambda>a b. lc (key a) (key b) \<le> 0) (sortBy (\<lambda>a b. lc (key a) (key b)) objs)
         \<and> (\<forall>x :: S3Object. filter (\<lambda>y. lc (key x) (key y) \<le> 0 \<and> lc (key y) (key x) \<le> 0)
                  (sortBy (\<lambda>a b. lc (key a) (key b)) objs)
                = filter (\<lambda>y. lc (key x) (key y) \<le> 0 \<and> lc (key y) (key x) \<le> 0) objs)
         \<and> (0 < lc ''whl/torch-2.0.1-py3-none-any.whl'' ''whl/torch-2.0.0-py3-none-any.whl''
             \<and> 0 < lc ''whl/torch-2.1.0-py3-none-any.whl'' ''whl/torch-2.0.1-py3-none-any.whl''
             \<longrightarrow> take 3 (drop 4 (simplePackageLines lc now
                    (createS3Objects [''whl/torch-2.1.0-py3-none-any.whl'',
                       ''whl/torch-2.0.0-py3-none-any.whl'', ''whl/torch-2.0.1-py3-none-any.whl''])
                    ''torch'' False))
                 = [''    <a href="/whl/torch-2.0.0-py3-none-any.whl">torch-2.0.0-py3-none-any.whl</a><br/>'',
                    ''    <a href="/whl/torch-2.0.1-py3-none-any.whl">torch-2.0.1-py3-none-any.whl</a><br/>'',
                    ''    <a href="/whl/torch-2.1.0-py3-none-any.whl">torch-2.1.0-py3-none-any.whl</a><br/>''])\<close>
proof (intro conjI impI allI)
  show "take (length objs) (drop 4 (simplePackageLines lc now objs pkg nightly))
            = map (packageLink nightly) (sortBy (\<lambda>a b. lc (key a) (key b)) objs)"
    by (rule link_lines)
  show "mset (sortBy (\<lambda>a b. lc (key a) (key b)) objs) = mset objs"
    by (rule sortBy_mset)
  show "sorted_wrt (\<lambda>a b. lc (key a) (key b) \<le> 0) (sortBy (\<lambda>a b. lc (key a) (key b)) objs)"
    by (rule sorted_by_key[OF assms])
  show "filter (\<lambda>y. lc (key x) (key y) \<le> 0 \<and> lc (key y) (key x) \<le> 0)
                  (sortBy (\<lambda>a b. lc (key a) (key b)) objs)
                = filter (\<lambda>y. lc (key x) (key y) \<le> 0 \<and> lc (key y) (key x) \<le> 0) objs" for x :: S3Object
    by (rule stable_by_key[OF assms])
next
  let ?k0 = "''whl/torch-2.0.0-py3-none-any.whl''" and ?k1 = "''whl/torch-2.0.1-py3-none-any.whl''"
    and ?k2 = "''whl/torch-2.1.0-py3-none-any.whl''"
  assume a: "0 < lc ?k1 ?k0 \<and> 0 < lc ?k2 ?k1"
  have total: "\<And>a b. lc a b \<le> 0 \<or> lc b a \<le> 0"
    and trans: "\<And>a b c. lc a b \<le> 0 \<Longrightarrow> lc b c \<le> 0 \<Longrightarrow> lc a c \<le> 0"
    using assms unfolding consistentComparator_def by blast+
  from a total[of ?k0 ?k1] have l01: "lc ?k0 ?k1 \<le> 0" by simp
  from a have n21: "\<not> lc ?k2 ?k1 \<le> 0" by simp
  have n20: "\<not> lc ?k2 ?k0 \<le> 0"
  proof
    assume "lc ?k2 ?k0 \<le> 0"
    from trans[OF this l01] n21 show False by simp
  qed
  let ?objs = "createS3Objects [?k2, ?k0, ?k1]"
  have s: "sortBy (\<lambda>a b. lc (key a) (key b)) ?objs = createS3Objects [?k0, ?k1, ?k2]"
    unfolding createS3Objects_def list.map
    by (subst sortBy_three) (simp_all add: l01 n21 n20)
  have "take (length ?objs) (drop 4 (simplePackageLines lc now ?objs ''torch'' False))
      = map (packageLink False) (createS3Objects [?k0, ?k1, ?k2])"
    unfolding link_lines s ..
  moreover have "length ?objs = 3"
    by (simp add: createS3Objects_def)
  moreover have \<open>map (packageLink False) (createS3Objects [?k0, ?k1, ?k2])
      = [''    <a href="/whl/torch-2.0.0-py3-none-any.whl">torch-2.0.0-py3-none-any.whl</a><br/>'',
         ''    <a href="/whl/torch-2.0.1-py3-none-any.whl">torch-2.0.1-py3-none-any.whl</a><br/>'',
         ''    <a href="/whl/torch-2.1.0-py3-none-any.whl">torch-2.1.0-py3-none-any.whl</a><br/>'']\<close>
    by code_simp
  ultimately show \<open>take 3 (drop 4 (simplePackageLines lc now ?objs ''torch'' False))
      = [''    <a href="/whl/torch-2.0.0-py3-none-any.whl">torch-2.0.0-py3-none-any.whl</a><br/>'',
         ''    <a href="/whl/torch-2.0.1-py3-none-any.whl">torch-2.0.1-py3-none-any.whl</a><br/>'',
         ''    <a href="/whl/torch-2.1.0-py3-none-any.whl">torch-2.1.0-py3-none-any.whl</a><br/>'']\<close>
    by simp
qed

theorem generateSimplePackageHtml_sorted_by_localeCompare_witness:
  \<open>consistentComparator collationCompare
   \<and> 0 < collationCompare ''whl/torch-2.0.1-py3-none-any.whl'' ''whl/torch-2.0.0-py3-none-any.whl''
   \<and> 0 < collationCompare ''whl/torch-2.1.0-py3-none-any.whl'' ''whl/torch-2.0.1-py3-none-any.whl''
   \<and> take 3 (drop 4 (simplePackageLines collationCompare 1700000000123
                    (createS3Objects [''whl/torch-2.1.0-py3-none-any.whl'',
                       ''whl/torch-2.0.0-py3-none-any.whl'', ''whl/torch-2.0.1-py3-none-any.whl''])
                    ''torch'' False))
       = [''    <a href="/whl/torch-2.0.0-py3-none-any.whl">torch-2.0.0-py3-none-any.whl</a><br/>'',
          ''    <a href="/whl/torch-2.0.1-py3-none-any.whl">torch-2.0.1-py3-none-any.whl</a><br/>'',
          ''    <a href="/whl/torch-2.1.0-py3-none-any.whl">torch-2.1.0-py3-none-any.whl</a><br/>'']\<close>
proof -
  have c: "consistentComparator collationCompare"
    by (rule consistent_collationCompare)
  have h1: "0 < collationCompare ''whl/torch-2.0.1-py3-none-any.whl'' ''whl/torch-2.0.0-py3-none-any.whl''"
    by code_simp
  have h2: "0 < collationCompare ''whl/torch-2.1.0-py3-none-any.whl'' ''whl/torch-2.0.1-py3-none-any.whl''"
    by code_simp
  note t = generateSimplePackageHtml_sorted_by_localeCompare[OF c, of "[]" 1700000000123 "[]" False]
  from t h1 h2
  have \<open>take 3 (drop 4 (simplePackageLines collationCompare 1700000000123
                    (createS3Objects [''whl/torch-2.1.0-py3-none-any.whl'',
                       ''whl/torch-2.0.0-py3-none-any.whl'', ''whl/torch-2.0.1-py3-none-any.whl''])
                    ''torch'' False))
       = [''    <a href="/whl/torch-2.0.0-py3-none-any.whl">torch-2.0.0-py3-none-any.whl</a><br/>'',
          ''    <a href="/whl/torch-2.0.1-py3-none-any.whl">torch-2.0.1-py3-none-any.whl</a><br/>'',
          ''    <a href="/whl/torch-2.1.0-py3-none-any.whl">torch-2.1.0-py3-none-any.whl</a><br/>'']\<close>
    by blast
  with c h1 h2 show ?thesis by (intro conjI)
qed

subsection \<open>The checksum fragment\<close>

lemma insertBy_map:
  assumes "\<And>a b. cmp (f a) (f b) = cmp a b"
  shows "insertBy cmp (f x) (map f ys) = map f (insertBy cmp x ys)"
  by (induction ys) (simp_all add: assms)

lemma sortBy_map:
  assumes "\<And>a b. cmp (f a) (f b) = cmp a b"
  shows "sortBy cmp (map f xs) = map f (sortBy cmp xs)"
  unfolding sortBy_def
  by (induction xs) (simp_all add: insertBy_map[where cmp=cmp and f=f, OF assms])

lemma packageLink_nightly: "packageLink True (x\<lparr>checksum := None\<rparr>) = packageLink True x"
  by (simp add: packageLink_def Let_def split: option.splits)

lemma set_replaceAll: "set (replaceAll pat rep s) \<subseteq> set s \<union> set rep"
proof (induction pat rep s rule: replaceAll.induct)
  case (1 pat rep)
  then show ?case by simp
next
  case (2 pat rep c cs)
  show ?case
  proof (cases "pat \<noteq> [] \<and> startsWith (c # cs) pat")
    case True
    with 2 have "set (replaceAll pat rep (drop (length pat - 1) cs)) \<subseteq> set (drop (length pat - 1) cs) \<union> set rep"
      by simp
    moreover have "set (drop (length pat - 1) cs) \<subseteq> set cs"
      by (rule set_drop_subset)
    ultimately show ?thesis using True by auto
  next
    case False
    with 2 show ?thesis by auto
  qed
qed

lemma lowerChar_hash: "lowerChar c = CHR ''#'' \<Longrightarrow> c = CHR ''#''"
  by (simp add: lowerChar_def split: if_splits)

lemma toLowerCase_hash: "CHR ''#'' \<in> set (toLowerCase s) \<Longrightarrow> CHR ''#'' \<in> set s"
  by (auto simp: toLowerCase_def dest: lowerChar_hash[OF sym])

lemma packageLink_no_hash:
  assumes "CHR ''#'' \<notin> set (key x)" and "\<forall>h. pep658 x = Some h \<longrightarrow> CHR ''#'' \<notin> set h"
  shows "CHR ''#'' \<notin> set (packageLink True x)"
proof -
  have d: "CHR ''#'' \<notin> set (replaceAll ''%2B'' ''+'' (drop n (key x)))" for n
    using set_replaceAll[of "''%2B''" "''+''" "drop n (key x)"] set_drop_subset[of n "key x"] assms(1)
    by auto
  have d0: "CHR ''#'' \<notin> set (replaceAll ''%2B'' ''+'' (key x))"
    using d[of 0] by simp
  show ?thesis
    using assms d d0
    by (auto simp: packageLink_def Let_def substringFrom_def split: option.splits)
qed

lemma header_no_hash:
  assumes "CHR ''#'' \<notin> set pkg"
  shows "CHR ''#'' \<notin> set (replaceAll ''_'' ''-'' (toLowerCase pkg))"
  using set_replaceAll[of "''_''" "''-''" "toLowerCase pkg"] assms toLowerCase_hash[of pkg]
  by auto

lemma timestamp_no_hash: "CHR ''#'' \<notin> set (timestampComment now)"
proof -
  have "CHR ''#'' \<notin> set (decimal (now div 1000))"
    by (rule decimal_no_char) simp
  then show ?thesis by (simp add: timestampComment_def)
qed

lemma nightly_page_no_hash:
  assumes "CHR ''#'' \<notin> set pkg"
    and "\<forall>x \<in> set objs. CHR ''#'' \<notin> set (key x) \<and> (\<forall>h. pep658 x = Some h \<longrightarrow> CHR ''#'' \<notin> set h)"
  shows "CHR ''#'' \<notin> set (generateSimplePackageHtml lc now objs pkg True)"
proof -
  have s: "set (sortBy (\<lambda>a b. lc (key a) (key b)) objs) = set objs"
    by (metis sortBy_mset set_mset_mset)
  have "\<forall>l \<in> set (simplePackageLines lc now objs pkg True). CHR ''#'' \<notin> set l"
    using assms(2) header_no_hash[OF assms(1)] timestamp_no_hash[of now] packageLink_no_hash
    by (auto simp: simplePackageLines_def s)
  then show ?thesis
    using set_joinLines[of "simplePackageLines lc now objs pkg True"]
    by (auto simp: generateSimplePackageHtml_def)
qed

lemma packageLink_fragment:
  assumes "checksum x = Some c" "c \<noteq> []"
  shows \<open>sublist (''<a href="/'' @ key x @ ''#sha256='' @ c @ ''"'') (packageLink False x)\<close>
proof -
  obtain rest where \<open>packageLink False x = ''    '' @ (''<a href="/'' @ key x @ ''#sha256='' @ c @ ''"'') @ rest\<close>
    using assms by (simp add: packageLink_def Let_def)
  then show ?thesis by (metis sublist_appendI)
qed

text \<open>
  C6. Called for the nightly feed (\<open>isNightly\<close> true), the per-package renderer adds no
  \<open>#sha256=\<close> fragment, even if every entry carries a checksum: the page is the page of
  the same entries without their checksums, and \<open>#sha256=\<close> occurs nowhere in it when
  no key, metadata hash or package name holds a \<open>#\<close> of its own. Called with \<open>isNightly\<close>
  false, every entry with a (non-empty) checksum has the link
  \<open><a href="/<key>#sha256=<checksum>"\<close> on the page.
\<close>

theorem generateSimplePackageHtml_checksum_fragment:
  \<open>generateSimplePackageHtml lc now objs pkg True
     = generateSimplePackageHtml lc now (map (\<lambda>x. x\<lparr>checksum := None\<rparr>) objs) pkg True
   \<and> (CHR ''#'' \<notin> set pkg
       \<and> (\<forall>x \<in> set objs. CHR ''#'' \<notin> set (key x) \<and> (\<forall>h. pep658 x = Some h \<longrightarrow> CHR ''#'' \<notin> set h))
       \<longrightarrow> \<not> sublist ''#sha256='' (generateSimplePackageHtml lc now objs pkg True))
   \<and> (\<forall>x \<in> set objs. \<forall>c. checksum x = Some c \<and> c \<noteq> []
         \<longrightarrow> sublist (''<a href="/'' @ key x @ ''#sha256='' @ c @ ''"'')
               (generateSimplePackageHtml lc now objs pkg False))\<close>
proof (intro conjI impI ballI allI)
  have "sortBy (\<lambda>a b. lc (key a) (key b)) (map (\<lambda>x. x\<lparr>checksum := None\<rparr>) objs)
      = map (\<lambda>x. x\<lparr>checksum := None\<rparr>) (sortBy (\<lambda>a b. lc (key a) (key b)) objs)"
    by (rule sortBy_map) simp
  then show "generateSimplePackageHtml lc now objs pkg True
     = generateSimplePackageHtml lc now (map (\<lambda>x. x\<lparr>checksum := None\<rparr>) objs) pkg True"
    by (simp add: generateSimplePackageHtml_def simplePackageLines_def packageLink_nightly comp_def)
next
  assume "CHR ''#'' \<notin> set pkg
       \<and> (\<forall>x \<in> set objs. CHR ''#'' \<notin> set (key x) \<and> (\<forall>h. pep658 x = Some h \<longrightarrow> CHR ''#'' \<notin> set h))"
  then have n: "CHR ''#'' \<notin> set (generateSimplePackageHtml lc now objs pkg True)"
    using nightly_page_no_hash by blast
  show "\<not> sublist ''#sha256='' (generateSimplePackageHtml lc now objs pkg True)"
  proof
    assume "sublist ''#sha256='' (generateSimplePackageHtml lc now objs pkg True)"
    then have "set ''#sha256='' \<subseteq> set (generateSimplePackageHtml lc now objs pkg True)"
      by (rule set_mono_sublist)
    with n show False by simp
  qed
next
  fix x c
  assume x: "x \<in> set objs" and c: "checksum x = Some c \<and> c \<noteq> []"
  have "x \<in> set (sortBy (\<lambda>a b. lc (key a) (key b)) objs)"
    using x by (metis sortBy_mset set_mset_mset)
  then have "packageLink False x \<in> set (simplePackageLines lc now objs pkg False)"
    by (simp add: simplePackageLines_def)
  then have "sublist (packageLink False x) (generateSimplePackageHtml lc now objs pkg False)"
    unfolding generateSimplePackageHtml_def by (rule joinLines_line)
  moreover have \<open>sublist (''<a href="/'' @ key x @ ''#sha256='' @ c @ ''"'') (packageLink False x)\<close>
    using c by (intro packageLink_fragment) simp_all
  ultimately show \<open>sublist (''<a href="/'' @ key x @ ''#sha256='' @ c @ ''"'')
               (generateSimplePackageHtml lc now objs pkg False)\<close>
    by (rule sublist_order.order.trans[rotated])
qed

theorem generateSimplePackageHtml_checksum_fragment_witness:
  \<open>\<not> sublist ''#sha256=''
       (generateSimplePackageHtml codeUnitCompare 1700000000123 [nightlyTorchWheel] ''torch'' True)
   \<and> sublist (''<a href="/'' @ key nightlyTorchWheel @ ''#sha256='' @ ''abc123def456'' @ ''"'')
       (generateSimplePackageHtml codeUnitCompare 1700000000123 [nightlyTorchWheel] ''torch'' False)\<close>
proof -
  note t = generateSimplePackageHtml_checksum_fragment
    [of codeUnitCompare 1700000000123 "[nightlyTorchWheel]" "''torch''"]
  have h: "CHR ''#'' \<notin> set ''torch''
       \<and> (\<forall>x \<in> set [nightlyTorchWheel]. CHR ''#'' \<notin> set (key x)
             \<and> (\<forall>h. pep658 x = Some h \<longrightarrow> CHR ''#'' \<notin> set h))"
    by (simp add: nightlyTorchWheel_def)
  have c: "checksum nightlyTorchWheel = Some ''abc123def456'' \<and> ''abc123def456'' \<noteq> []"
    by (simp add: nightlyTorchWheel_def)
  have m: "nightlyTorchWheel \<in> set [nightlyTorchWheel]"
    by simp
  from t h have "\<not> sublist ''#sha256=''
       (generateSimplePackageHtml codeUnitCompare 1700000000123 [nightlyTorchWheel] ''torch'' True)"
    by blast
  moreover from t m c have \<open>sublist (''<a href="/'' @ key nightlyTorchWheel @ ''#sha256='' @ ''abc123def456'' @ ''"'')
       (generateSimplePackageHtml codeUnitCompare 1700000000123 [nightlyTorchWheel] ''torch'' False)\<close>
    by blast
  ultimately show ?thesis by (rule conjI)
qed

end
